(* ===== verification/Prelude.thy ===== *)
theory Prelude
  imports Main "HOL-Library.Word"
begin

text \<open>
  Shared vocabulary of the assembler model: how a C function's outcome is represented
  (a value, a call of \<open>exit\<close>, or undefined behaviour), the C library functions the
  sources call (\<open>ctype.h\<close> classification in the C locale, \<open>atoi\<close>, C strings read up
  to their NUL byte), the layout of unsigned bit-fields in a 32-bit storage unit
  (System V ABI: allocated from the least significant bit), and bounds-checked array
  writes.  Every lemma here is generic; the component theories use them through the
  collections \<open>cres_simps\<close> and \<open>c_eval\<close>.
\<close>

unbundle bit_operations_syntax

named_theorems cres_simps "rewriting rules for the outcome combinator of C functions"
named_theorems c_eval "unfolding rules that evaluate the C helpers on concrete input"

section \<open>Outcomes of C functions\<close>

text \<open>
  A C function of the sources either returns a value, or calls \<open>exit\<close> (the tokenizer
  does on an unclassifiable token), or performs an operation whose behaviour the C
  standard leaves undefined (an array index outside the array, pointer arithmetic beyond
  an object).  The model returns \<open>Inr v\<close>, \<open>Inl (Exit n)\<close> or \<open>Inl Undefined_behaviour\<close>:
  undefined behaviour is an outcome of its own, so a theorem about a returned value is
  never about an execution the standard does not define.
\<close>

datatype abort = Undefined_behaviour | Exit int

type_synonym 'a cres = "abort + 'a"

definition cbind :: "'a cres \<Rightarrow> ('a \<Rightarrow> 'b cres) \<Rightarrow> 'b cres" where
  "cbind m f = (case m of Inl e \<Rightarrow> Inl e | Inr x \<Rightarrow> f x)"

lemma cbind_Inl [simp, cres_simps]: "cbind (Inl e) f = Inl e"
  by (simp add: cbind_def)

lemma cbind_Inr [simp, cres_simps]: "cbind (Inr x) f = f x"
  by (simp add: cbind_def)

lemma cbind_eq_Inr [cres_simps]: "cbind m f = Inr y \<longleftrightarrow> (\<exists>x. m = Inr x \<and> f x = Inr y)"
  by (cases m) auto

lemma cbind_eq_Inl [cres_simps]:
  "cbind m f = Inl e \<longleftrightarrow> m = Inl e \<or> (\<exists>x. m = Inr x \<and> f x = Inl e)"
  by (cases m) auto

lemma cbind_assoc [cres_simps]: "cbind (cbind m f) g = cbind m (\<lambda>x. cbind (f x) g)"
  by (cases m) simp_all

lemma cbind_cong [fundef_cong]:
  "m = m' \<Longrightarrow> (\<And>x. m' = Inr x \<Longrightarrow> f x = g x) \<Longrightarrow> cbind m f = cbind m' g"
  by (cases m') auto

section \<open>Characters and C strings\<close>

text \<open>
  \<open>char\<close> is an 8-bit byte.  The classification functions of \<open>ctype.h\<close> in the C locale:
  glibc's tables also accept the negative values that a signed \<open>char\<close> above 127
  becomes, and classify those bytes as nothing.
\<close>

abbreviation NUL :: char where
  "NUL \<equiv> CHR 0x00"

definition isspace :: "char \<Rightarrow> bool" where
  "isspace c \<longleftrightarrow> c = CHR '' '' \<or> ((9::nat) \<le> of_char c \<and> of_char c \<le> (13::nat))"

definition isdigit :: "char \<Rightarrow> bool" where
  "isdigit c \<longleftrightarrow> (48::nat) \<le> of_char c \<and> of_char c \<le> (57::nat)"

definition isalpha :: "char \<Rightarrow> bool" where
  "isalpha c \<longleftrightarrow> ((65::nat) \<le> of_char c \<and> of_char c \<le> (90::nat)) \<or> ((97::nat) \<le> of_char c \<and> of_char c \<le> (122::nat))"

definition digit_val :: "char \<Rightarrow> int" where
  "digit_val c = int (of_char c) - 48"

lemmas ctype_defs [c_eval] = isspace_def isdigit_def isalpha_def digit_val_def

text \<open>
  A cursor into a line (\<open>char *\<close>) is the rest of the line from the cursor on.  The
  byte under the cursor is \<open>peek\<close>; at the end of the list it is the terminating NUL.
  A buffer read at an index is \<open>nth_nul\<close>; the model's buffers hold every byte the
  program wrote, the terminating NUL included, and reading one position past them reads
  that NUL.  \<open>cstr\<close> is the C string a buffer holds (its bytes up to the first NUL).
\<close>

fun peek :: "char list \<Rightarrow> char" where
  "peek [] = NUL"
| "peek (c # _) = c"

definition nth_nul :: "char list \<Rightarrow> nat \<Rightarrow> char" where
  "nth_nul s i = (if i < length s then s ! i else NUL)"

definition cstr :: "char list \<Rightarrow> char list" where
  "cstr s = takeWhile (\<lambda>c. c \<noteq> NUL) s"

lemma cstr_no_nul [simp]: "NUL \<notin> set s \<Longrightarrow> cstr s = s"
  by (induction s) (auto simp: cstr_def)

lemma cstr_append_nul [simp]: "NUL \<notin> set s \<Longrightarrow> cstr (s @ NUL # t) = s"
  by (induction s) (auto simp: cstr_def)

lemma nul_notin_cstr [simp]: "NUL \<notin> set (cstr s)"
  by (induction s) (auto simp: cstr_def)

lemma length_cstr_le: "length (cstr s) \<le> length s"
  by (simp add: cstr_def length_takeWhile_le)

section \<open>atoi\<close>

text \<open>
  glibc's \<open>atoi\<close> is \<open>strtol (s, NULL, 10)\<close>: leading white space, an optional sign,
  then the longest run of decimal digits.  The sources call it on numerals of at most
  four digits, so its overflow case never arises and is not modelled.
\<close>

fun digits_val :: "int \<Rightarrow> char list \<Rightarrow> int" where
  "digits_val acc [] = acc"
| "digits_val acc (c # cs) = (if isdigit c then digits_val (10 * acc + digit_val c) cs else acc)"

definition atoi :: "char list \<Rightarrow> int" where
  "atoi s = (case dropWhile isspace (cstr s) of
      [] \<Rightarrow> 0
    | c # cs \<Rightarrow> (if c = CHR ''-'' then - digits_val 0 cs
                else if c = CHR ''+'' then digits_val 0 cs
                else digits_val 0 (c # cs)))"

lemmas atoi_eval [c_eval] = atoi_def cstr_def

section \<open>Integers stored in a byte buffer\<close>

text \<open>
  The token's payload is a union of a 32-byte string and an \<open>int\<close>.  Storing an \<open>int\<close>
  overwrites the first four bytes with its little-endian two's-complement
  representation (x86-64); the string bytes after them stay.
\<close>

definition int_bytes :: "int \<Rightarrow> char list" where
  "int_bytes n = map (\<lambda>k. char_of (nat (drop_bit (8 * k) n mod 256))) [0, 1, 2, 3]"

definition store_int :: "int \<Rightarrow> char list \<Rightarrow> char list" where
  "store_int n buf = int_bytes n @ drop 4 buf"

lemma length_int_bytes [simp]: "length (int_bytes n) = 4"
  by (simp add: int_bytes_def)

lemmas int_bytes_eval [c_eval] = int_bytes_def store_int_def char_of_def bit_0

section \<open>Bit-fields in a 32-bit storage unit\<close>

text \<open>
  An unsigned bit-field of width \<open>w\<close> at bit offset \<open>off\<close>: reading it is a shift and a
  mask; assigning an \<open>int\<close> to it stores the value modulo \<open>2 ^ w\<close> and leaves every
  other bit of the unit as it was.
\<close>

definition bf_get :: "nat \<Rightarrow> nat \<Rightarrow> 32 word \<Rightarrow> 32 word" where
  "bf_get off w x = take_bit w (drop_bit off x)"

definition bf_set :: "nat \<Rightarrow> nat \<Rightarrow> int \<Rightarrow> 32 word \<Rightarrow> 32 word" where
  "bf_set off w v x = (x AND NOT (push_bit off (mask w))) OR push_bit off (take_bit w (word_of_int v))"

lemma bf_get_set_same:
  "off + w \<le> 32 \<Longrightarrow> bf_get off w (bf_set off w v x) = take_bit w (word_of_int v)"
  by (rule bit_word_eqI) (auto simp: bf_get_def bf_set_def bit_simps)

lemma bf_get_set_other:
  "off' + w' \<le> off \<or> off + w \<le> off' \<Longrightarrow> bf_get off' w' (bf_set off w v x) = bf_get off' w' x"
  by (rule bit_word_eqI) (auto simp: bf_get_def bf_set_def bit_simps dest: bit_imp_le_length)

lemma bf_get_less: "unat (bf_get off w x) < 2 ^ w"
proof -
  have "unat (take_bit w (drop_bit off x)) = take_bit w (unat (drop_bit off x))"
    by (simp add: unsigned_take_bit_eq)
  then show ?thesis
    by (simp add: bf_get_def take_bit_eq_mod)
qed

lemma bf_get_set_within:
  "off \<le> off' \<Longrightarrow> off' + w' \<le> off + w \<Longrightarrow> off + w \<le> 32 \<Longrightarrow>
   bf_get off' w' (bf_set off w v x) = bf_get (off' - off) w' (take_bit w (word_of_int v) :: 32 word)"
  by (rule bit_word_eqI) (auto simp: bf_get_def bf_set_def bit_simps dest: bit_imp_le_length)

lemma bf_get_zero [simp]: "bf_get off w 0 = 0"
  by (simp add: bf_get_def)

lemmas bf_eval [c_eval] = bf_get_def bf_set_def mask_numeral

section \<open>Unsigned arithmetic on words\<close>

text \<open>
  The serializer packs bit-fields with shifts, masks and \<open>|\<close>.  On values that do not
  overlap and do not overflow these are multiplication, \<open>mod\<close> and addition.
\<close>

lemma word_bit_less_pow: "unat (y :: 'a::len word) < 2 ^ k \<Longrightarrow> bit y n \<Longrightarrow> n < k"
proof -
  assume y: "unat y < 2 ^ k" and b: "bit y n"
  have "bit (unat y) n" using b by (simp add: bit_unsigned_iff)
  moreover have "take_bit k (unat y) = unat y" using y by (simp add: take_bit_nat_eq_self_iff)
  ultimately show "n < k" by (metis bit_take_bit_iff)
qed

lemma unat_push_bit_or:
  fixes x y :: "'a::len word"
  assumes y: "unat y < 2 ^ k" and ov: "unat x * 2 ^ k + unat y < 2 ^ LENGTH('a)"
  shows "unat (push_bit k x OR y) = unat x * 2 ^ k + unat y"
proof -
  have "push_bit k x OR y = push_bit k x + y"
    by (rule disjunctive_add [symmetric]) (auto simp: bit_push_bit_iff dest: word_bit_less_pow [OF y])
  moreover have "unat (push_bit k x) = unat x * 2 ^ k"
  proof -
    have "unat (push_bit k x) = take_bit LENGTH('a) (push_bit k (unat x))"
      by (rule unsigned_push_bit_eq)
    also have "push_bit k (unat x) = unat x * 2 ^ k" by (simp add: push_bit_eq_mult)
    finally show ?thesis using ov by (simp add: take_bit_nat_eq_self_iff)
  qed
  ultimately show ?thesis using ov by (simp add: unat_add_lem [THEN iffD1])
qed

lemma word_and_mask_self: "unat (x :: 'a::len word) < 2 ^ n \<Longrightarrow> x AND mask n = x"
  by (metis mask_eq_iff of_nat_less_numeral_power_cancel_iff of_nat_unat)

lemma unat_and_mask: "unat ((w :: 'a::len word) AND mask n) = unat w mod 2 ^ n"
  by (metis take_bit_eq_mask unsigned_take_bit_eq take_bit_nat_def)

section \<open>Arrays with bounds\<close>

text \<open>
  A C array of \<open>n\<close> elements is a function from indices to elements; writing at an
  index outside \<open>0 ..< n\<close> is undefined behaviour.  The index is an \<open>int\<close>, as the C
  expressions that compute it (\<open>*IC - operandCount\<close>) are.
\<close>

definition arr_upd :: "nat \<Rightarrow> int \<Rightarrow> ('a \<Rightarrow> 'a) \<Rightarrow> (nat \<Rightarrow> 'a) \<Rightarrow> (nat \<Rightarrow> 'a) cres" where
  "arr_upd n i f a = (if 0 \<le> i \<and> i < int n then Inr (a(nat i := f (a (nat i)))) else Inl Undefined_behaviour)"

text \<open>
  Pointer arithmetic \<open>p + k\<close> on a pointer at offset \<open>off\<close> into an object of \<open>sz\<close>
  bytes: defined only while the result stays inside the object or one past its end
  (C11 6.5.6); the result is the new offset.
\<close>

definition ptr_add :: "nat \<Rightarrow> nat \<Rightarrow> int \<Rightarrow> nat cres" where
  "ptr_add sz off k =
     (if 0 \<le> int off + k \<and> int off + k \<le> int sz then Inr (nat (int off + k))
      else Inl Undefined_behaviour)"

lemma arr_upd_in [simp, cres_simps]:
  "0 \<le> i \<Longrightarrow> i < int n \<Longrightarrow> arr_upd n i f a = Inr (a(nat i := f (a (nat i))))"
  by (simp add: arr_upd_def)

lemma arr_upd_out [simp, cres_simps]:
  "\<not> (0 \<le> i \<and> i < int n) \<Longrightarrow> arr_upd n i f a = Inl Undefined_behaviour"
  by (simp add: arr_upd_def)

lemma arr_upd_other: "arr_upd n i f a = Inr a' \<Longrightarrow> j \<noteq> nat i \<Longrightarrow> a' j = a j"
  by (auto simp: arr_upd_def split: if_splits)

end
