(* ===== verification/Types.thy ===== *)
theory Types
  imports Prelude
begin

text \<open>
  The data of \<^verbatim>\<open>src/utils.h\<close>: the limits, the token kinds and tokens, labels, and the
  machine word with its four bit-field layouts.  A \<^verbatim>\<open>machine_word\<close> is a record whose
  \<open>word\<close> field is the 32-bit storage unit that the union's four bit-field structs
  share, so that writing one member and reading another (the sources do) reads the same
  bits the compiled program reads.  The assembler's arrays and counters, which \<^verbatim>\<open>main\<close>
  owns and passes by pointer, are the record \<open>asm_state\<close>.
\<close>

section \<open>Limits\<close>

definition MAX_MEMORY_SPACE :: int where
  "MAX_MEMORY_SPACE = 1024"

definition MAX_LINE_LENGTH :: nat where
  "MAX_LINE_LENGTH = 80"

definition MAX_FILE_SIZE :: int where
  "MAX_FILE_SIZE = 100"

definition MAX_LABEL_LENGTH :: nat where
  "MAX_LABEL_LENGTH = 31"

lemmas limits [c_eval] = MAX_MEMORY_SPACE_def MAX_LINE_LENGTH_def MAX_FILE_SIZE_def MAX_LABEL_LENGTH_def

section \<open>Tokens\<close>

datatype TokenType =
    DIRECTIVE
  | ONE_OPERAND
  | TWO_OPERANDS
  | NO_OPERANDS
  | REGISTER
  | NUMBER
  | LABEL_DECLARATION
  | LABEL
  | COMMA
  | DATA
  | END
  | INVALID

text \<open>The integer value of each enumerator, as C numbers them from 0.\<close>

fun TokenType_val :: "TokenType \<Rightarrow> int" where
  "TokenType_val DIRECTIVE = 0"
| "TokenType_val ONE_OPERAND = 1"
| "TokenType_val TWO_OPERANDS = 2"
| "TokenType_val NO_OPERANDS = 3"
| "TokenType_val REGISTER = 4"
| "TokenType_val NUMBER = 5"
| "TokenType_val LABEL_DECLARATION = 6"
| "TokenType_val LABEL = 7"
| "TokenType_val COMMA = 8"
| "TokenType_val DATA = 9"
| "TokenType_val END = 10"
| "TokenType_val INVALID = 11"

text \<open>
  The token's \<open>value\<close> is a union of a 32-byte string and an \<open>int\<close>; \<open>tvalue\<close> holds the
  bytes of that union that the tokenizer wrote (the string and its NUL, with the first
  four bytes overwritten when an \<open>int\<close> was stored).
\<close>

record Token =
  ttype :: TokenType
  tvalue :: "char list"

section \<open>Labels\<close>

text \<open>
  A \<^verbatim>\<open>struct Label\<close>.  Its \<open>next\<close> pointer is the order of the label table, which
  the model keeps as a list; the copy of a label inside a machine word never follows it.
\<close>

record label =
  name :: "char list"
  address :: int
  isExternal :: bool
  isEntry :: bool
  isData :: bool

section \<open>Machine words\<close>

datatype WordType =
    FIRST_WORD_TYPE
  | IMMDT_DRCT_WORD_TYPE
  | DATA_WORD_TYPE
  | RGSTR_WORD_TYPE
  | OTHER_WORD_TYPE \<comment> \<open>an indeterminate value outside the four enumerators\<close>

text \<open>The bit-fields of the four structs of the union, in declaration order.\<close>

datatype bitfield =
    FW_ARE | FW_dst_op_addr | FW_src_op_addr | FW_op_code
  | ID_ARE | ID_operand
  | DW_data
  | RW_ARE | RW_dst_op_addr | RW_src_op_addr

text \<open>Offset and width of each field: fields are allocated from bit 0 upwards.\<close>

fun field_layout :: "bitfield \<Rightarrow> nat \<times> nat" where
  "field_layout FW_ARE = (0, 2)"
| "field_layout FW_dst_op_addr = (2, 3)"
| "field_layout FW_src_op_addr = (5, 3)"
| "field_layout FW_op_code = (8, 4)"
| "field_layout ID_ARE = (0, 2)"
| "field_layout ID_operand = (2, 10)"
| "field_layout DW_data = (0, 12)"
| "field_layout RW_ARE = (0, 2)"
| "field_layout RW_dst_op_addr = (2, 5)"
| "field_layout RW_src_op_addr = (7, 5)"

record machine_word =
  label :: label
  isLabel :: bool
  wordType :: WordType
  word :: "32 word"
  line_number :: int

definition get_field :: "bitfield \<Rightarrow> machine_word \<Rightarrow> 32 word" where
  "get_field f mw = bf_get (fst (field_layout f)) (snd (field_layout f)) (word mw)"

definition set_field :: "bitfield \<Rightarrow> int \<Rightarrow> machine_word \<Rightarrow> machine_word" where
  "set_field f v mw = mw\<lparr>word := bf_set (fst (field_layout f)) (snd (field_layout f)) v (word mw)\<rparr>"

text \<open>
  The writes the encoders perform on one element of an image, one constructor per kind
  of C assignment: the word type, a bit-field, the \<open>isLabel\<close> flag, the characters of a
  label name copied into \<open>label.name\<close> (without a terminating NUL, as the sources copy
  them), and the line number of a data word.
\<close>

datatype mw_write =
    SetType WordType
  | SetField bitfield int
  | SetIsLabel bool
  | SetName "char list"
  | SetLine int

fun mw_apply :: "mw_write \<Rightarrow> machine_word \<Rightarrow> machine_word" where
  "mw_apply (SetType t) mw = mw\<lparr>wordType := t\<rparr>"
| "mw_apply (SetField f v) mw = set_field f v mw"
| "mw_apply (SetIsLabel b) mw = mw\<lparr>isLabel := b\<rparr>"
| "mw_apply (SetName s) mw = mw\<lparr>label := (label mw)\<lparr>name := s @ drop (length s) (name (label mw))\<rparr>\<rparr>"
| "mw_apply (SetLine n) mw = mw\<lparr>line_number := n\<rparr>"

section \<open>Images and the assembler state\<close>

type_synonym image = "nat \<Rightarrow> machine_word"

text \<open>
  A sequence of writes into an image of \<open>MAX_MEMORY_SPACE\<close> words, in program order;
  the first write outside the array is undefined behaviour.
\<close>

fun stores :: "(int \<times> mw_write) list \<Rightarrow> image \<Rightarrow> image cres" where
  "stores [] img = Inr img"
| "stores ((i, w) # ws) img = cbind (arr_upd (nat MAX_MEMORY_SPACE) i (mw_apply w) img) (stores ws)"

record asm_state =
  codeImage :: image
  dataImage :: image
  labelTable :: "label list"
  IC :: int
  DC :: int

section \<open>Files\<close>

text \<open>
  A file system maps a name to the content of the file, \<open>None\<close> when there is no such
  file.  \<^verbatim>\<open>main\<close> and the preprocessor read their input line by line with
  \<^verbatim>\<open>fgets\<close> into buffers of 81 bytes (\<^verbatim>\<open>MAX_LINE_LENGTH + 1\<close> and
  \<^verbatim>\<open>MAX_LINE_LEN\<close>).
\<close>

type_synonym fsys = "char list \<Rightarrow> char list option"

text \<open>
  \<^verbatim>\<open>fgets(line, sizeof(line), f)\<close> with \<^verbatim>\<open>sizeof(line) = MAX_LINE_LENGTH + 1\<close>:
  the next chunk is the input up to and including the first newline, or its first
  \<^verbatim>\<open>MAX_LINE_LENGTH\<close> characters, whichever is shorter.
\<close>

definition fgets_len :: "char list \<Rightarrow> nat" where
  "fgets_len s =
     (let w = take MAX_LINE_LENGTH s; k = length (takeWhile (\<lambda>c. c \<noteq> CHR 0x0A) w) in
      if k < length w then k + 1 else k)"

function fgets_lines :: "char list \<Rightarrow> char list list" where
  "fgets_lines s = (if s = [] then [] else take (fgets_len s) s # fgets_lines (drop (fgets_len s) s))"
  by pat_completeness auto
termination
proof (relation "measure length")
  fix s :: "char list"
  assume "s \<noteq> []"
  then have "0 < fgets_len s"
    by (cases s) (auto simp: fgets_len_def Let_def MAX_LINE_LENGTH_def)
  with \<open>s \<noteq> []\<close> show "(drop (fgets_len s) s, s) \<in> measure length" by simp
qed simp

declare fgets_lines.simps [simp del]

lemmas fgets_eval [c_eval] = fgets_len_def

section \<open>Lemmas on fields and writes\<close>

lemma field_layout_fits: "fst (field_layout f) + snd (field_layout f) \<le> 12"
  by (cases f) simp_all

lemma arr_upd_mem:
  "0 \<le> i \<Longrightarrow> i < MAX_MEMORY_SPACE \<Longrightarrow>
   arr_upd (nat MAX_MEMORY_SPACE) i f a = Inr (a(nat i := f (a (nat i))))"
  by (simp add: MAX_MEMORY_SPACE_def)

lemma get_set_field_same:
  "get_field f (set_field f v mw) = take_bit (snd (field_layout f)) (word_of_int v)"
proof -
  have "fst (field_layout f) + snd (field_layout f) \<le> 32"
    using field_layout_fits [of f] by simp
  then show ?thesis
    by (simp add: get_field_def set_field_def bf_get_set_same)
qed

lemma get_set_field_disjoint:
  "fst (field_layout g) + snd (field_layout g) \<le> fst (field_layout f)
   \<or> fst (field_layout f) + snd (field_layout f) \<le> fst (field_layout g)
   \<Longrightarrow> get_field g (set_field f v mw) = get_field g mw"
  by (simp add: get_field_def set_field_def bf_get_set_other)

lemma get_field_less: "unat (get_field f mw) < 2 ^ snd (field_layout f)"
  by (simp add: get_field_def bf_get_less)

lemma get_set_field_within:
  "fst (field_layout f) \<le> fst (field_layout g) \<Longrightarrow>
   fst (field_layout g) + snd (field_layout g) \<le> fst (field_layout f) + snd (field_layout f) \<Longrightarrow>
   get_field g (set_field f v mw) =
     bf_get (fst (field_layout g) - fst (field_layout f)) (snd (field_layout g))
       (take_bit (snd (field_layout f)) (word_of_int v))"
  using field_layout_fits [of f] by (simp add: get_field_def set_field_def bf_get_set_within)

lemma set_field_fields [simp]:
  "wordType (set_field f v mw) = wordType mw"
  "isLabel (set_field f v mw) = isLabel mw"
  "label (set_field f v mw) = label mw"
  "line_number (set_field f v mw) = line_number mw"
  by (simp_all add: set_field_def)

lemma get_field_upd [simp]:
  "get_field f (mw\<lparr>wordType := x\<rparr>) = get_field f mw"
  "get_field f (mw\<lparr>isLabel := b\<rparr>) = get_field f mw"
  "get_field f (mw\<lparr>label := l\<rparr>) = get_field f mw"
  "get_field f (mw\<lparr>line_number := n\<rparr>) = get_field f mw"
  by (simp_all add: get_field_def)

lemma set_field_upd [simp]:
  "set_field f v (mw\<lparr>wordType := x\<rparr>) = (set_field f v mw)\<lparr>wordType := x\<rparr>"
  by (simp add: set_field_def)

lemma stores_append:
  "stores (ws @ vs) img = cbind (stores ws img) (stores vs)"
  by (induction ws arbitrary: img) (auto simp: cbind_def split: sum.splits)

lemma stores_other:
  "stores ws img = Inr img' \<Longrightarrow> int j \<notin> fst ` set ws \<Longrightarrow> img' j = img j"
proof (induction ws arbitrary: img)
  case Nil
  then show ?case by simp
next
  case (Cons iw ws)
  obtain i w where iw: "iw = (i, w)" by fastforce
  from Cons.prems iw obtain img1 where
    upd: "arr_upd (nat MAX_MEMORY_SPACE) i (mw_apply w) img = Inr img1" and
    rest: "stores ws img1 = Inr img'"
    by (auto simp: cbind_eq_Inr)
  from Cons.prems iw have "j \<noteq> nat i"
    using upd by (auto simp: arr_upd_def split: if_splits)
  with upd have "img1 j = img j" by (rule arr_upd_other)
  with Cons.IH [OF rest] Cons.prems show ?case by simp
qed

lemma stores_Inl:
  "stores ws img = Inl e \<Longrightarrow> e = Undefined_behaviour"
proof (induction ws arbitrary: img)
  case Nil
  then show ?case by simp
next
  case (Cons iw ws)
  then show ?case
    by (cases iw) (auto simp: arr_upd_def cbind_eq_Inl split: if_splits)
qed

lemma fgets_lines_chunks:
  "concat (fgets_lines s) = s \<and> (\<forall>l \<in> set (fgets_lines s). l \<noteq> [] \<and> length l \<le> MAX_LINE_LENGTH)"
proof (induction s rule: fgets_lines.induct)
  case (1 s)
  show ?case
  proof (cases "s = []")
    case True
    then show ?thesis by (simp add: fgets_lines.simps)
  next
    case False
    have pos: "0 < fgets_len s"
      using False by (cases s) (auto simp: fgets_len_def Let_def MAX_LINE_LENGTH_def)
    have le: "fgets_len s \<le> MAX_LINE_LENGTH"
    proof -
      have "length (takeWhile (\<lambda>c. c \<noteq> CHR 0x0A) (take MAX_LINE_LENGTH s)) \<le> length (take MAX_LINE_LENGTH s)"
        by (rule length_takeWhile_le)
      then show ?thesis by (auto simp: fgets_len_def Let_def)
    qed
    have eq: "fgets_lines s = take (fgets_len s) s # fgets_lines (drop (fgets_len s) s)"
      using False by (subst fgets_lines.simps) simp
    from "1.IH" [OF False] False pos le show ?thesis
      unfolding eq by auto
  qed
qed

end
