(* ===== verification/Names.thy ===== *)
theory Names
  imports Types
begin

text \<open>
  The reserved names and the label-name check: the tables \<^verbatim>\<open>instructions[]\<close>
  (\<^verbatim>\<open>src/instructions.c\<close>) and \<^verbatim>\<open>directives[]\<close> (\<^verbatim>\<open>src/directives.c\<close>), and
  \<^verbatim>\<open>legalLabelName\<close> and \<^verbatim>\<open>isValidLabel\<close> of \<^verbatim>\<open>src/labels.c\<close>, which the tokenizer
  calls on every token that contains a colon.  Strings are the C strings the functions
  receive (without their NUL).
\<close>

definition instructions :: "char list list" where
  "instructions = [''mov'', ''cmp'', ''add'', ''sub'', ''lea'', ''not'', ''clr'', ''inc'',
                   ''dec'', ''jmp'', ''bne'', ''red'', ''prn'', ''jsr'', ''rts'', ''stop'']"

definition directives :: "char list list" where
  "directives = [''.data'', ''.string'', ''.entry'', ''.extern'']"

text \<open>
  \<^verbatim>\<open>legalLabelName\<close> scans both tables with \<^verbatim>\<open>strcmp\<close> and returns
  \<^verbatim>\<open>MAX(isInstruction, isDirective)\<close>: 1 for a free name, 2 for a mnemonic,
  3 for a directive.
\<close>

definition legalLabelName :: "char list \<Rightarrow> int" where
  "legalLabelName nm =
     max (if nm \<in> set instructions then 2 else 1) (if nm \<in> set directives then 3 else 1)"

text \<open>
  \<^verbatim>\<open>isValidLabel\<close>: the first character is a letter; the length is at most
  \<^verbatim>\<open>MAX_LABEL_LENGTH\<close>; the characters at indices \<open>1 .. strlen - 2\<close> are letters or
  digits (the loop bound is \<^verbatim>\<open>strlen(str)-1\<close>, so the last character is never
  checked); for a declaration, the character where the loop stopped, index
  \<open>max 1 (strlen - 1)\<close>, is a colon; and the whole string, colon included, is not a
  reserved name.
\<close>

definition isValidLabel :: "char list \<Rightarrow> TokenType \<Rightarrow> bool" where
  "isValidLabel str ty =
     (if \<not> isalpha (peek str) then False
      else if MAX_LABEL_LENGTH < length str then False
      else if \<not> list_all (\<lambda>c. isalpha c \<or> isdigit c) (take (length str - 2) (drop 1 str)) then False
      else if nth_nul str (max 1 (length str - 1)) \<noteq> CHR '':'' \<and> ty = LABEL_DECLARATION then False
      else if legalLabelName str = 2 then False
      else if legalLabelName str = 3 then False
      else True)"

lemmas names_eval [c_eval] = instructions_def directives_def legalLabelName_def isValidLabel_def nth_nul_def

lemma legalLabelName_cases: "legalLabelName nm \<in> {1, 2, 3}"
  by (simp add: legalLabelName_def)

end
