(* ===== verification/Tokenizer.thy ===== *)
theory Tokenizer
  imports Names "HOL-Library.Sublist"
begin

text \<open>
  The tokenizer of \<^verbatim>\<open>src/parser.c\<close>: \<^verbatim>\<open>isLineTooLong\<close>, \<^verbatim>\<open>isNumber\<close>,
  \<^verbatim>\<open>skipSpaces\<close> and \<^verbatim>\<open>getNextToken\<close>.  A line cursor is the rest of the line;
  \<open>getNextToken\<close> returns the token and the advanced cursor, or the abort outcome:
  \<open>Exit 1\<close> where the C code calls \<^verbatim>\<open>exit(1)\<close> on an unclassifiable token, and
  undefined behaviour where a token longer than the 32-byte token buffer is copied into
  it.  The line number the C functions take is used only in messages, which the model
  does not print.
\<close>

section \<open>Definitions\<close>

text \<open>\<^verbatim>\<open>isLineTooLong\<close>: the C string is longer than \<^verbatim>\<open>MAX_LINE_LENGTH\<close>.\<close>

definition isLineTooLong :: "char list \<Rightarrow> bool" where
  "isLineTooLong line = (MAX_LINE_LENGTH < length (cstr line))"

text \<open>
  \<^verbatim>\<open>isNumber\<close>: an optional sign, then digits; the running value is checked against
  2047 after each digit, and the string must end right after the digits.  The digit loop:
\<close>

fun isNumber_digits :: "int \<Rightarrow> char list \<Rightarrow> bool" where
  "isNumber_digits num [] = True"
| "isNumber_digits num (c # cs) =
     (if isdigit c then
        (let num' = num * 10 + digit_val c in
         if 2047 < num' then False else isNumber_digits num' cs)
      else False)"

definition isNumber :: "char list \<Rightarrow> bool" where
  "isNumber s = (case s of
      c # cs \<Rightarrow> (if c = CHR ''-'' \<or> c = CHR ''+'' then isNumber_digits 0 cs else isNumber_digits 0 s)
    | [] \<Rightarrow> isNumber_digits 0 [])"

definition skipSpaces :: "char list \<Rightarrow> char list" where
  "skipSpaces line = dropWhile isspace line"

text \<open>The characters the token copy loop takes: not white space, NUL or comma.\<close>

definition tok_char :: "char \<Rightarrow> bool" where
  "tok_char c \<longleftrightarrow> \<not> isspace c \<and> c \<noteq> NUL \<and> c \<noteq> CHR '',''"

text \<open>The classification chain at the end of \<^verbatim>\<open>getNextToken\<close>.\<close>

definition classify :: "char list \<Rightarrow> TokenType" where
  "classify s =
     (if s \<in> set [''mov'', ''cmp'', ''add'', ''sub'', ''lea''] then TWO_OPERANDS
      else if s \<in> set [''not'', ''clr'', ''inc'', ''dec'', ''jmp'', ''bne'', ''red'', ''prn'', ''jsr'']
        then ONE_OPERAND
      else if s \<in> set [''rts'', ''stop''] then NO_OPERANDS
      else if peek s = CHR ''.'' then DIRECTIVE
      else if isalpha (peek s) then LABEL
      else if peek s = CHR ''@'' then REGISTER
      else INVALID)"

text \<open>
  \<^verbatim>\<open>getNextToken\<close>, in the order of the C code: end of line; comma; otherwise the
  word at the cursor, \<open>word_token\<close>: copy the token (undefined behaviour once the copy
  passes the 32-byte buffer); a number (the value \<^verbatim>\<open>atoi\<close> returns is stored into
  the union, over the first four bytes of the string); a string literal; a label
  declaration (validated, then the first colon is overwritten by NUL); a token of 31 or
  more characters is \<open>INVALID\<close>; otherwise the classification chain, where \<open>INVALID\<close>
  ends the program with \<^verbatim>\<open>exit(1)\<close>.
\<close>

definition word_token :: "char list \<Rightarrow> (Token \<times> char list) cres" where
  "word_token line =
     (let s = takeWhile tok_char line; rest = dropWhile tok_char line in
      if MAX_LABEL_LENGTH < length s then Inl Undefined_behaviour
      else if (peek s = CHR ''+'' \<or> peek s = CHR ''-'' \<or> isdigit (peek s)) \<and> isNumber s then
        Inr (\<lparr>ttype = NUMBER, tvalue = store_int (atoi s) (s @ [NUL])\<rparr>, rest)
      else if CHR ''\"'' \<in> set s then
        Inr (\<lparr>ttype = DATA, tvalue = s @ [NUL]\<rparr>, rest)
      else if CHR '':'' \<in> set s then
        Inr (\<lparr>ttype = (if isValidLabel s LABEL_DECLARATION then LABEL_DECLARATION else INVALID),
              tvalue = (s @ [NUL])[length (takeWhile (\<lambda>c. c \<noteq> CHR '':'') s) := NUL]\<rparr>, rest)
      else if MAX_LABEL_LENGTH \<le> length s then
        Inr (\<lparr>ttype = INVALID, tvalue = s @ [NUL]\<rparr>, rest)
      else if classify s = INVALID then Inl (Exit 1)
      else Inr (\<lparr>ttype = classify s, tvalue = s @ [NUL]\<rparr>, rest))"

definition getNextToken :: "char list \<Rightarrow> (Token \<times> char list) cres" where
  "getNextToken line0 =
     (let line = skipSpaces line0 in
      if peek line = CHR ''\<newline>'' \<or> peek line = NUL then
        Inr (\<lparr>ttype = END, tvalue = ''end of line'' @ [NUL]\<rparr>, line)
      else if peek line = CHR '','' then
        Inr (\<lparr>ttype = COMMA, tvalue = ''comma'' @ [NUL]\<rparr>, tl line)
      else word_token line)"

text \<open>
  A byte after which \<^verbatim>\<open>atoi\<close> reads nothing more: no digit, no white space, no sign.
\<close>

definition inert :: "char \<Rightarrow> bool" where
  "inert c \<longleftrightarrow> \<not> isdigit c \<and> \<not> isspace c \<and> c \<noteq> CHR ''+'' \<and> c \<noteq> CHR ''-''"

lemmas tokenizer_eval [c_eval] =
  isLineTooLong_def isNumber_def skipSpaces_def tok_char_def classify_def word_token_def
  getNextToken_def

section \<open>Lemmas on the tokenizer\<close>

lemma skipSpaces_le: "length (skipSpaces l) \<le> length l"
  by (simp add: skipSpaces_def length_dropWhile_le)

lemma skipSpaces_peek: "\<not> isspace (peek (skipSpaces l))"
  by (induction l) (auto simp: skipSpaces_def isspace_def)

lemma skipSpaces_less: "peek l \<noteq> NUL \<Longrightarrow> peek (skipSpaces l) = NUL \<Longrightarrow> length (skipSpaces l) < length l"
proof (cases l)
  case (Cons a list)
  assume "peek l \<noteq> NUL" "peek (skipSpaces l) = NUL"
  with Cons have "isspace a" by (auto simp: skipSpaces_def split: if_splits)
  with Cons show ?thesis by (simp add: skipSpaces_def length_dropWhile_le le_imp_less_Suc)
qed simp

lemma dropWhile_less: "P (peek l) \<Longrightarrow> peek l \<noteq> NUL \<Longrightarrow> length (dropWhile P l) < length l"
  by (cases l) (auto simp: length_dropWhile_le le_imp_less_Suc)

lemma classify_not_END: "classify s \<noteq> END"
  by (simp add: classify_def)

lemma word_token_shape:
  "word_token line = Inr (t, r) \<Longrightarrow> r = dropWhile tok_char line \<and> ttype t \<noteq> END"
  by (auto simp: word_token_def Let_def classify_not_END split: if_splits)

lemma getNextToken_shape:
  assumes "getNextToken l = Inr (t, r)"
  shows "(ttype t = END \<and> r = skipSpaces l \<and> peek r = NUL)
       \<or> (ttype t \<noteq> END \<and> length r < length (skipSpaces l))"
proof -
  define line where "line = skipSpaces l"
  have sp: "\<not> isspace (peek line)"
    unfolding line_def by (rule skipSpaces_peek)
  have nl: "isspace CHR ''\<newline>''"
    by (simp add: isspace_def)
  consider (eol) "peek line = NUL" | (comma) "peek line = CHR '',''"
    | (word) "peek line \<noteq> NUL" "peek line \<noteq> CHR '',''"
    by blast
  then show ?thesis
  proof cases
    case eol
    with assms show ?thesis by (auto simp: getNextToken_def line_def)
  next
    case comma
    with assms sp nl have "r = tl line" "ttype t = COMMA"
      by (auto simp: getNextToken_def line_def)
    moreover from comma have "line \<noteq> []" by auto
    ultimately show ?thesis by (simp add: line_def)
  next
    case word
    with sp nl have tc: "tok_char (peek line)" and nonl: "peek line \<noteq> CHR ''\<newline>''"
      by (auto simp: tok_char_def)
    with word assms have "word_token line = Inr (t, r)"
      by (simp add: getNextToken_def line_def)
    then have "r = dropWhile tok_char line \<and> ttype t \<noteq> END"
      by (rule word_token_shape)
    with tc word show ?thesis
      by (simp add: dropWhile_less line_def)
  qed
qed

lemma getNextToken_le:
  "getNextToken l = Inr (t, r) \<Longrightarrow> length r \<le> length l"
  using getNextToken_shape [of l t r] skipSpaces_le [of l] by auto

lemma getNextToken_not_END_less:
  "getNextToken l = Inr (t, r) \<Longrightarrow> ttype t \<noteq> END \<Longrightarrow> length r < length l"
  using getNextToken_shape [of l t r] skipSpaces_le [of l] by auto

lemma getNextToken_measure:
  "getNextToken l = Inr (t, r) \<Longrightarrow> length r + (if ttype t = END then 0 else 1) \<le> length l"
  using getNextToken_le [of l t r] getNextToken_not_END_less [of l t r] by auto

lemma getNextToken_END_rest:
  "getNextToken l = Inr (t, r) \<Longrightarrow> ttype t = END \<Longrightarrow> peek r = NUL"
  using getNextToken_shape [of l t r] by auto

section \<open>Numbers\<close>

lemma digit_val_range: "isdigit c \<Longrightarrow> 0 \<le> digit_val c \<and> digit_val c \<le> 9"
  by (auto simp: isdigit_def digit_val_def)

lemma isNumber_digits_bound:
  "isNumber_digits acc cs \<Longrightarrow> 0 \<le> acc \<Longrightarrow> acc \<le> 2047 \<Longrightarrow>
   0 \<le> digits_val acc cs \<and> digits_val acc cs \<le> 2047"
proof (induction cs arbitrary: acc)
  case Nil
  then show ?case by simp
next
  case (Cons c cs)
  then have d: "isdigit c" and b: "acc * 10 + digit_val c \<le> 2047"
    and r: "isNumber_digits (acc * 10 + digit_val c) cs"
    by (auto simp: Let_def split: if_splits)
  have "0 \<le> acc * 10 + digit_val c" using digit_val_range [OF d] Cons.prems(2) by simp
  with Cons.IH [OF r] b d show ?case by (simp add: mult.commute)
qed

lemma atoi_number_bound:
  assumes num: "isNumber s" and hd: "peek s = CHR ''+'' \<or> peek s = CHR ''-'' \<or> isdigit (peek s)"
    and nonul: "NUL \<notin> set s"
  shows "\<bar>atoi s\<bar> \<le> 2047"
proof (cases s)
  case Nil
  with hd show ?thesis by (simp add: isdigit_def)
next
  case (Cons c cs)
  have nsp: "\<not> isspace c" using hd Cons by (auto simp: isspace_def isdigit_def)
  have "cstr s = s" using nonul by simp
  then have a: "atoi s = (if c = CHR ''-'' then - digits_val 0 cs
                else if c = CHR ''+'' then digits_val 0 cs else digits_val 0 (c # cs))"
    using nsp Cons by (simp add: atoi_def)
  show ?thesis
  proof (cases "c = CHR ''-'' \<or> c = CHR ''+''")
    case True
    with num Cons have "isNumber_digits 0 cs" by (auto simp: isNumber_def)
    from isNumber_digits_bound [OF this] a True show ?thesis by auto
  next
    case False
    with num Cons have "isNumber_digits 0 (c # cs)" by (auto simp: isNumber_def)
    from isNumber_digits_bound [OF this] a False show ?thesis by auto
  qed
qed

lemma word_token_NUMBER:
  "word_token line = Inr (t, r) \<Longrightarrow> ttype t = NUMBER \<Longrightarrow>
   isNumber (takeWhile tok_char line)
   \<and> (peek (takeWhile tok_char line) = CHR ''+'' \<or> peek (takeWhile tok_char line) = CHR ''-''
      \<or> isdigit (peek (takeWhile tok_char line)))
   \<and> tvalue t = store_int (atoi (takeWhile tok_char line)) (takeWhile tok_char line @ [NUL])"
  by (auto simp: word_token_def Let_def classify_def split: if_splits)

lemma getNextToken_word:
  "getNextToken l = Inr (t, r) \<Longrightarrow> ttype t \<noteq> END \<Longrightarrow> ttype t \<noteq> COMMA \<Longrightarrow>
   word_token (skipSpaces l) = Inr (t, r)"
  by (auto simp: getNextToken_def Let_def split: if_splits)

lemma tok_char_no_nul: "NUL \<notin> set (takeWhile tok_char l)"
  by (auto simp: tok_char_def dest: set_takeWhileD)

lemma digits_val_stop: "t = [] \<or> \<not> isdigit (hd t) \<Longrightarrow> digits_val acc t = acc"
  by (cases t) auto

lemma cstr_Cons: "cstr (c # s) = (if c = NUL then [] else c # cstr s)"
  by (simp add: cstr_def)

lemma cstr_inert: "inert b1 \<Longrightarrow> cstr (b1 # rest) = [] \<or> (\<exists>u. cstr (b1 # rest) = b1 # u)"
  by (simp add: cstr_Cons)

lemma atoi_two_bytes:
  assumes "inert b1"
  shows "atoi (b0 # b1 # rest) = (if isdigit b0 then digit_val b0 else 0)"
proof -
  define t where "t = cstr (b1 # rest)"
  have t: "t = [] \<or> (\<exists>u. t = b1 # u)"
    unfolding t_def using assms by (rule cstr_inert)
  have tsp: "dropWhile isspace t = t"
    using t assms by (auto simp: inert_def)
  have tdig: "digits_val acc t = acc" for acc
    using t assms by (auto simp: inert_def intro: digits_val_stop)
  have nul: "\<not> isdigit NUL" by (simp add: isdigit_def)
  have "cstr (b0 # b1 # rest) = (if b0 = NUL then [] else b0 # t)"
    by (simp add: cstr_Cons t_def)
  then show ?thesis
    using tsp tdig nul assms t
    by (auto simp: atoi_def isdigit_def isspace_def inert_def split: list.splits)
qed

lemma byte1_range:
  fixes n :: int
  assumes "\<bar>n\<bar> \<le> 2047"
  shows "(n div 256) mod 256 \<le> 7 \<or> 248 \<le> (n div 256) mod 256"
proof -
  define k where "k = n div 256"
  have k: "-8 \<le> k" "k \<le> 7" using assms unfolding k_def by linarith+
  show ?thesis
  proof (cases "0 \<le> k")
    case True
    with k have "k mod 256 = k" by simp
    with k show ?thesis by (simp add: k_def)
  next
    case False
    have "k mod 256 = k + 256" using k False by presburger
    with k show ?thesis by (simp add: k_def)
  qed
qed

lemma of_char_byte: "of_char (char_of (nat (k mod 256))) = nat (k mod 256)"
  by (simp add: of_char_of take_bit_eq_mod nat_mod_distrib)

lemma atoi_store_int:
  assumes "\<bar>n\<bar> \<le> 2047"
  shows "atoi (store_int n buf) = (if 48 \<le> n mod 256 \<and> n mod 256 \<le> 57 then n mod 256 - 48 else 0)"
proof -
  define b0 :: char where "b0 = char_of (nat (n mod 256))"
  define b1 :: char where "b1 = char_of (nat ((n div 256) mod 256))"
  have o0: "of_char b0 = nat (n mod 256)" unfolding b0_def by (rule of_char_byte)
  have o1: "of_char b1 = nat ((n div 256) mod 256)" unfolding b1_def by (rule of_char_byte)
  have "inert b1"
    using byte1_range [OF assms] o1
    by (auto simp: inert_def isdigit_def isspace_def)
  moreover have "\<exists>rest. store_int n buf = b0 # b1 # rest"
    by (simp add: store_int_def int_bytes_def b0_def b1_def drop_bit_eq_div)
  ultimately show ?thesis
    using o0 by (auto simp: atoi_two_bytes isdigit_def digit_val_def)
qed

lemma suffix_dropWhile: "suffix (dropWhile P xs) xs"
  by (induction xs) (auto intro: suffix_ConsI)

lemma getNextToken_suffix:
  assumes g: "getNextToken l = Inr (t, r)"
  shows "suffix r l"
proof -
  have sl: "suffix (skipSpaces l) l" by (simp add: skipSpaces_def suffix_dropWhile)
  have "r = skipSpaces l \<or> r = tl (skipSpaces l) \<or> r = dropWhile tok_char (skipSpaces l)"
    using g word_token_shape [of "skipSpaces l" t r]
    by (auto simp: getNextToken_def Let_def split: if_splits)
  moreover have "suffix (tl (skipSpaces l)) (skipSpaces l)"
    by (cases "skipSpaces l") (auto intro: suffix_ConsI)
  ultimately have "suffix r (skipSpaces l)" by (auto simp: suffix_dropWhile)
  then show ?thesis using sl by (rule suffix_order.trans)
qed

lemma getNextToken_progress:
  assumes "getNextToken l = Inr (t, r)" and "peek l \<noteq> NUL"
  shows "length r < length l"
proof (cases "ttype t = END")
  case True
  with assms(1) have "r = skipSpaces l" "peek r = NUL"
    using getNextToken_shape [OF assms(1)] by auto
  with assms(2) show ?thesis using skipSpaces_less [of l] by simp
next
  case False
  with assms(1) show ?thesis by (rule getNextToken_not_END_less)
qed

section \<open>Properties of the tokenizer\<close>

text \<open>
  C1 (the cursor only moves forward, and moves on a non-empty line): the cursor
  \<^verbatim>\<open>getNextToken\<close> leaves is a suffix of the one it was given, and a strictly shorter
  one when the given cursor is not at its NUL.  Every loop of the encoders that reads
  tokens while \<^verbatim>\<open>**line != '\\0'\<close> therefore ends.
\<close>

theorem getNextToken_cursor:
  assumes "getNextToken l = Inr (t, r)"
  shows "suffix r l \<and> (peek l \<noteq> NUL \<longrightarrow> length r < length l)"
  using getNextToken_suffix [OF assms] getNextToken_progress [OF assms] by blast

theorem getNextToken_cursor_witness:
  "getNextToken '' mov @r1'' = Inr (\<lparr>ttype = TWO_OPERANDS, tvalue = ''mov'' @ [NUL]\<rparr>, '' @r1'')
   \<and> suffix '' @r1'' '' mov @r1'' \<and> length '' @r1'' < length '' mov @r1''"
proof -
  have t: "getNextToken '' mov @r1'' = Inr (\<lparr>ttype = TWO_OPERANDS, tvalue = ''mov'' @ [NUL]\<rparr>, '' @r1'')"
    by (simp add: c_eval)
  show ?thesis using getNextToken_cursor [OF t] t by simp
qed

text \<open>
  C2 (the value an encoder reads from a number token): a \<open>NUMBER\<close> token's numeral has
  magnitude at most 2047, but the tokenizer stores the number into the \<open>int\<close> member of
  the token's union, over the first four bytes of the string, and the encoders then call
  \<^verbatim>\<open>atoi(token.value.string)\<close> on those bytes.  What they read is the digit whose
  ASCII code is the number's low byte, if that byte is an ASCII digit, and 0 otherwise:
  \<open>49\<close> reads as 1, \<open>5\<close> and \<open>-5\<close> read as 0.
\<close>

theorem number_token_readback:
  assumes "getNextToken l = Inr (t, r)" and "ttype t = NUMBER"
  defines "n \<equiv> atoi (takeWhile tok_char (skipSpaces l))"
  shows "\<bar>n\<bar> \<le> 2047
    \<and> atoi (tvalue t) = (if 48 \<le> n mod 256 \<and> n mod 256 \<le> 57 then n mod 256 - 48 else 0)"
proof -
  from assms(1,2) have "word_token (skipSpaces l) = Inr (t, r)"
    by (intro getNextToken_word) simp_all
  from word_token_NUMBER [OF this assms(2)]
  have num: "isNumber (takeWhile tok_char (skipSpaces l))"
    and hd: "peek (takeWhile tok_char (skipSpaces l)) = CHR ''+''
      \<or> peek (takeWhile tok_char (skipSpaces l)) = CHR ''-''
      \<or> isdigit (peek (takeWhile tok_char (skipSpaces l)))"
    and tv: "tvalue t = store_int n (takeWhile tok_char (skipSpaces l) @ [NUL])"
    by (simp_all add: n_def)
  have b: "\<bar>n\<bar> \<le> 2047"
    unfolding n_def using num hd tok_char_no_nul by (rule atoi_number_bound)
  with tv show ?thesis by (simp add: atoi_store_int)
qed

theorem number_token_readback_witness:
  "getNextToken ''49'' = Inr (\<lparr>ttype = NUMBER, tvalue = store_int 49 (''49'' @ [NUL])\<rparr>, [])
   \<and> atoi (store_int 49 (''49'' @ [NUL])) = 1"
proof -
  define t where "t = \<lparr>ttype = NUMBER, tvalue = store_int 49 (''49'' @ [NUL])\<rparr>"
  have g: "getNextToken ''49'' = Inr (t, [])"
    by (simp add: t_def c_eval)
  have ty: "ttype t = NUMBER" by (simp add: t_def)
  have n: "atoi (takeWhile tok_char (skipSpaces ''49'')) = 49"
    by (simp add: c_eval)
  from number_token_readback [OF g ty] n have "atoi (tvalue t) = 1" by simp
  with g show ?thesis by (simp add: t_def)
qed

end
