(* ===== verification/Labels.thy ===== *)
theory Labels
  imports Tokenizer
begin

text \<open>
  The label table of \<^verbatim>\<open>src/labels.c\<close>: \<^verbatim>\<open>createLabelTable\<close>, \<^verbatim>\<open>match\<close>,
  \<^verbatim>\<open>findLabel\<close>, \<^verbatim>\<open>insertLabel\<close>, \<^verbatim>\<open>createLabel\<close> and \<^verbatim>\<open>parseLabel\<close>.  The
  linked list reached from \<^verbatim>\<open>labelTable->head\<close> is the list \<open>labelTable\<close> of the
  state, head first.  \<^verbatim>\<open>createLabel\<close> begins with \<^verbatim>\<open>findLabel(name + ':', ...)\<close>,
  which adds 58 (the code of the colon) to a pointer into the 32-byte token string:
  pointer arithmetic outside the object, so every call is undefined behaviour, and the
  label table never changes in a defined run.
\<close>

section \<open>Definitions\<close>

text \<open>\<^verbatim>\<open>createLabelTable\<close>: a table with no labels (the allocation is assumed to succeed).\<close>

definition createLabelTable :: "label list" where
  "createLabelTable = []"

definition match :: "TokenType \<Rightarrow> char list \<Rightarrow> Token \<Rightarrow> bool" where
  "match ty v t \<longleftrightarrow> ttype t = ty \<and> cstr (tvalue t) = v"

text \<open>
  \<^verbatim>\<open>findLabel\<close> walks the whole list and remembers whether some name compared equal.
\<close>

definition findLabel :: "char list \<Rightarrow> label list \<Rightarrow> bool" where
  "findLabel nm tbl = foldl (\<lambda>found l. if nm = name l then True else found) False tbl"

text \<open>
  \<^verbatim>\<open>insertLabel\<close>: a \<open>NULL\<close> label (\<open>None\<close>) is refused; otherwise the label becomes the
  new head, its \<open>next\<close> pointing at the old head.
\<close>

definition insertLabel :: "label option \<Rightarrow> label list \<Rightarrow> bool \<times> label list" where
  "insertLabel new tbl = (case new of None \<Rightarrow> (False, tbl) | Some l \<Rightarrow> (True, l # tbl))"

text \<open>
  \<^verbatim>\<open>createLabel(name, ...)\<close>, where \<open>name\<close> points at the start of the token string
  \<open>nm\<close>, an array of \<open>MAX_LABEL_LENGTH + 1\<close> bytes.  The duplicate test looks up the
  string at \<open>name + ':'\<close>; the new label gets the name, the flags, and \<open>IC\<close> or \<open>DC\<close>
  as its address.
\<close>

definition createLabel ::
  "char list \<Rightarrow> label list \<Rightarrow> bool \<Rightarrow> bool \<Rightarrow> bool \<Rightarrow> int \<Rightarrow> int \<Rightarrow> (bool \<times> label list) cres" where
  "createLabel nm tbl isExt isEnt isDat ic dc =
     cbind (ptr_add (MAX_LABEL_LENGTH + 1) 0 (int (of_char (CHR '':'')))) (\<lambda>off.
       if findLabel (cstr (drop off nm)) tbl then Inr (False, tbl)
       else Inr (insertLabel (Some \<lparr>name = cstr nm, address = (if \<not> isDat then ic else dc),
                   isExternal = isExt, isEntry = isEnt, isData = isDat\<rparr>) tbl))"

text \<open>
  \<^verbatim>\<open>parseLabel\<close>.  Its \<^verbatim>\<open>while\<close> loop returns in its first pass, so it is an
  \<open>if\<close> on \<^verbatim>\<open>token.type != DIRECTIVE\<close>.  Inside, the tests
  \<^verbatim>\<open>token.type == TWO_OPERANDS\<close>, \<^verbatim>\<open>ONE_OPERAND\<close> and \<^verbatim>\<open>DIRECTIVE\<close> under
  \<^verbatim>\<open>token.type == LABEL_DECLARATION\<close> are always false and the code after the
  unconditional \<^verbatim>\<open>return TRUE\<close> of line 85 is never reached; neither is part of the
  model.  The local \<open>nextToken\<close> is never assigned on the paths that read it: its type
  is the argument \<open>nextTok\<close>, an indeterminate value.  The result carries the line
  cursor, which the directive path advances by one token.
\<close>

definition parseLabel ::
  "Token \<Rightarrow> char list \<Rightarrow> asm_state \<Rightarrow> bool \<Rightarrow> bool \<Rightarrow> bool \<Rightarrow> TokenType
   \<Rightarrow> (bool \<times> asm_state \<times> char list) cres" where
  "parseLabel t line st isDat isExt isEnt nextTok =
     (if ttype t = DIRECTIVE then
        cbind (getNextToken line) (\<lambda>(_, line'). Inr (True, st, line'))
      else if ttype t = LABEL_DECLARATION then
        (if nextTok = COMMA then Inr (False, st, line)
         else if nextTok = NUMBER \<or> nextTok = INVALID then Inr (False, st, line)
         else cbind (createLabel (tvalue t) (labelTable st) isExt isEnt isDat (IC st) (DC st))
                (\<lambda>(b, tbl). Inr (b, st\<lparr>labelTable := tbl\<rparr>, line)))
      else if isValidLabel (cstr (tvalue t)) (ttype t) then
        cbind (createLabel (tvalue t) (labelTable st) isExt isEnt isDat (IC st) (DC st))
          (\<lambda>(_, tbl). Inr (True, st\<lparr>labelTable := tbl\<rparr>, line))
      else Inr (True, st, line))"

lemmas labels_eval [c_eval] = createLabelTable_def match_def findLabel_def insertLabel_def
  createLabel_def parseLabel_def ptr_add_def

section \<open>Lemmas\<close>

lemma ptr_add_colon: "ptr_add (MAX_LABEL_LENGTH + 1) 0 (int (of_char (CHR '':''))) = Inl Undefined_behaviour"
  by (simp add: ptr_add_def MAX_LABEL_LENGTH_def)

lemma findLabel_foldl:
  "foldl (\<lambda>found l. if nm = name l then True else found) b tbl \<longleftrightarrow> b \<or> nm \<in> name ` set tbl"
  by (induction tbl arbitrary: b) auto

lemma parseLabel_state:
  "parseLabel t line st isDat isExt isEnt nextTok = Inr (b, st', line') \<Longrightarrow> st' = st"
  unfolding parseLabel_def createLabel_def ptr_add_colon by (auto simp: cbind_eq_Inr split: if_splits)

lemma parseLabel_decl:
  "ttype t = LABEL_DECLARATION \<Longrightarrow> parseLabel t line st isDat isExt isEnt nextTok = Inr (b, st', line') \<Longrightarrow>
   \<not> b \<and> st' = st \<and> line' = line"
  unfolding parseLabel_def createLabel_def ptr_add_colon by (auto simp: cbind_eq_Inr split: if_splits)

section \<open>Properties of the label table\<close>

text \<open>
  C10.  \<^verbatim>\<open>findLabel\<close>, which scans the whole list without stopping, answers
  whether some label of the table has the name.
\<close>

theorem findLabel_iff: "findLabel nm tbl \<longleftrightarrow> nm \<in> name ` set tbl"
  by (simp add: findLabel_def findLabel_foldl)

text \<open>
  C11.  After \<^verbatim>\<open>insertLabel\<close> of a label, a lookup finds exactly the names found
  before and the new one.
\<close>

theorem insertLabel_findLabel:
  "findLabel nm (snd (insertLabel (Some l) tbl)) \<longleftrightarrow> nm = name l \<or> findLabel nm tbl"
  by (auto simp: insertLabel_def findLabel_def findLabel_foldl)

text \<open>
  C12.  Every call of \<^verbatim>\<open>createLabel\<close> is undefined behaviour: \<^verbatim>\<open>name + ':'\<close> moves
  the pointer 58 bytes into a 32-byte string.
\<close>

theorem createLabel_UB: "createLabel nm tbl isExt isEnt isDat ic dc = Inl Undefined_behaviour"
  unfolding createLabel_def ptr_add_colon by simp

text \<open>
  C13.  When \<^verbatim>\<open>parseLabel\<close> returns, it has not changed the assembler state: the only
  path that would change it goes through \<^verbatim>\<open>createLabel\<close>.  On a label declaration it
  returns \<open>FALSE\<close>.
\<close>

theorem parseLabel_returns:
  "parseLabel t line st isDat isExt isEnt nextTok = Inr (b, st', line') \<Longrightarrow>
   st' = st \<and> (ttype t = LABEL_DECLARATION \<longrightarrow> \<not> b)"
  using parseLabel_state [of t line st isDat isExt isEnt nextTok b st' line']
    parseLabel_decl [of t line st isDat isExt isEnt nextTok b st' line'] by blast

theorem parseLabel_returns_witness:
  "\<exists>st' line'. parseLabel \<lparr>ttype = LABEL_DECLARATION, tvalue = ''L1'' @ [NUL]\<rparr> [] \<lparr>codeImage = \<lambda>_. undefined, dataImage = \<lambda>_. undefined, labelTable = [], IC = 0, DC = 0\<rparr> False False False COMMA = Inr (False, st', line')
     \<and> st' = \<lparr>codeImage = \<lambda>_. undefined, dataImage = \<lambda>_. undefined, labelTable = [], IC = 0, DC = 0\<rparr>"
proof -
  have r: "parseLabel \<lparr>ttype = LABEL_DECLARATION, tvalue = ''L1'' @ [NUL]\<rparr> [] \<lparr>codeImage = \<lambda>_. undefined, dataImage = \<lambda>_. undefined, labelTable = [], IC = 0, DC = 0\<rparr> False False False COMMA = Inr (False, \<lparr>codeImage = \<lambda>_. undefined, dataImage = \<lambda>_. undefined, labelTable = [], IC = 0, DC = 0\<rparr>, [])"
    by (simp add: parseLabel_def)
  from parseLabel_returns [OF r] r show ?thesis by blast
qed

end
