(* ===== verification/Instructions.thy ===== *)
theory Instructions
  imports Tokenizer
begin

text \<open>
  The instruction encoder of \<^verbatim>\<open>src/instructions.c\<close>: \<^verbatim>\<open>isRegister\<close>,
  \<^verbatim>\<open>findOpcode\<close>, and the three handlers \<^verbatim>\<open>parseTwoOperands\<close>,
  \<^verbatim>\<open>parseOneOperand\<close>, \<^verbatim>\<open>parseNoOperands\<close>.  Each handler writes the first word
  at \<^verbatim>\<open>codeImage[*IC]\<close>, then reads operand tokens in a loop that writes into the
  code image at the indices the C expressions compute (\<^verbatim>\<open>*IC - operandCount\<close>,
  \<^verbatim>\<open>*IC - -operandCount\<close>, \<^verbatim>\<open>*IC\<close>), and finally adds \<^verbatim>\<open>operandCount\<close> to
  \<^verbatim>\<open>*IC\<close> and checks the bound, the commas and the operand count.  A handler
  changes only \<open>codeImage\<close> and \<open>IC\<close> of the assembler state; the line cursor it
  advances is local to \<^verbatim>\<open>parseLine\<close>.
\<close>

section \<open>Definitions\<close>

text \<open>\<^verbatim>\<open>isRegister\<close>: the token is \<open>@r\<close> followed by one digit 0 to 7.\<close>

definition isRegister :: "Token \<Rightarrow> bool" where
  "isRegister t \<longleftrightarrow>
     nth_nul (tvalue t) 1 = CHR ''r'' \<and> (48::nat) \<le> of_char (nth_nul (tvalue t) 2)
     \<and> of_char (nth_nul (tvalue t) 2) \<le> (55::nat) \<and> nth_nul (tvalue t) 3 = NUL"

text \<open>\<^verbatim>\<open>findOpcode\<close>: the \<^verbatim>\<open>strcmp\<close> chain, in the C code's order.\<close>

definition findOpcode :: "Token \<Rightarrow> int" where
  "findOpcode t = (let s = cstr (tvalue t) in
     if s = ''mov'' then 0 else if s = ''cmp'' then 1 else if s = ''add'' then 2
     else if s = ''sub'' then 3 else if s = ''not'' then 4 else if s = ''clr'' then 5
     else if s = ''lea'' then 6 else if s = ''inc'' then 7 else if s = ''dec'' then 8
     else if s = ''jmp'' then 9 else if s = ''bne'' then 10 else if s = ''red'' then 11
     else if s = ''prn'' then 12 else if s = ''jsr'' then 13 else if s = ''rts'' then 14
     else if s = ''stop'' then 15 else -1)"

text \<open>\<^verbatim>\<open>atoi(token.value.string + 2)\<close>: the register number after \<open>@r\<close>.\<close>

definition reg_num :: "Token \<Rightarrow> int" where
  "reg_num t = atoi (drop 2 (tvalue t))"

text \<open>
  How a pass of an operand loop ends: it left the loop (end of line, bound reached,
  \<^verbatim>\<open>break\<close>), or the handler returned from inside it.
\<close>

datatype loop_exit = Loop_done | Loop_return bool

text \<open>
  One token of \<^verbatim>\<open>parseTwoOperands\<close>' loop (lines 98 to 179), given the opcode, \<open>*IC\<close>,
  the token, the already incremented \<open>operandCount\<close>, \<open>commaCount\<close> and the image.  The
  result says whether the handler returns (\<open>Some False\<close>) or the loop goes on, with the
  new image and counters.  A number in a position where it is not allowed is ignored
  without an error; so is any token other than a register, number, label or comma.
\<close>

definition twoOps_step ::
  "int \<Rightarrow> int \<Rightarrow> Token \<Rightarrow> int \<Rightarrow> int \<Rightarrow> image \<Rightarrow> (bool option \<times> image \<times> int \<times> int) cres" where
  "twoOps_step op ic t oc cc img =
     (let cont = (\<lambda>ws. cbind (stores ws img) (\<lambda>img'. Inr (None, img', oc, cc)));
          ret = Inr (Some False, img, oc, cc) in
      if ttype t = REGISTER then
        (if isRegister t then
           (if oc = 1 then
              (if op \<in> {0, 1, 2, 3} then
                 cont [(ic - oc, SetField FW_src_op_addr 5), (ic, SetType IMMDT_DRCT_WORD_TYPE),
                       (ic, SetField RW_src_op_addr 0), (ic, SetField RW_dst_op_addr (reg_num t))]
               else ret)
            else if oc = 2 then
              (if op \<in> {0, 1, 2, 3, 6} then
                 cont [(ic + oc, SetType FIRST_WORD_TYPE), (ic - oc, SetField FW_dst_op_addr 5),
                       (ic, SetType RGSTR_WORD_TYPE), (ic, SetField RW_dst_op_addr (reg_num t))]
               else ret)
            else ret)
         else ret)
      else if ttype t = NUMBER then
        (if oc = 1 \<and> op \<in> {0, 1, 2, 3} then
           cont [(ic - oc, SetField FW_dst_op_addr 1), (ic, SetType IMMDT_DRCT_WORD_TYPE),
                 (ic, SetField ID_operand (atoi (tvalue t)))]
         else if oc = 2 \<and> op = 1 \<and> cc = 1 then
           cont [(ic + oc, SetType FIRST_WORD_TYPE), (ic - oc, SetField FW_dst_op_addr 1),
                 (ic, SetType IMMDT_DRCT_WORD_TYPE), (ic, SetField ID_operand (atoi (tvalue t)))]
         else cont [])
      else if ttype t = LABEL then
        (if oc = 1 \<or> oc = 2 then
           (if op \<in> {0, 1, 2, 3, 6} then
              cont [(ic - oc, SetType FIRST_WORD_TYPE), (ic - oc, SetField FW_dst_op_addr 3),
                    (ic, SetType IMMDT_DRCT_WORD_TYPE), (ic, SetIsLabel True),
                    (ic, SetName (cstr (tvalue t)))]
            else ret)
         else ret)
      else if ttype t = COMMA then Inr (None, img, oc - 1, cc + 1)
      else cont [])"

text \<open>One token of \<^verbatim>\<open>parseOneOperand\<close>'s loop (lines 227 to 280).\<close>

definition oneOp_step ::
  "int \<Rightarrow> int \<Rightarrow> Token \<Rightarrow> int \<Rightarrow> int \<Rightarrow> image \<Rightarrow> (bool option \<times> image \<times> int \<times> int) cres" where
  "oneOp_step op ic t oc cc img =
     (let cont = (\<lambda>ws. cbind (stores ws img) (\<lambda>img'. Inr (None, img', oc, cc)));
          ret = Inr (Some False, img, oc, cc);
          one_ops = {4, 5, 7, 8, 9, 10, 11, 12, 13} in
      if ttype t = REGISTER then
        (if isRegister t then
           (if oc = 1 then
              (if op \<in> one_ops then
                 cont [(ic - oc, SetField FW_src_op_addr 5), (ic, SetType IMMDT_DRCT_WORD_TYPE),
                       (ic, SetField RW_src_op_addr 0), (ic, SetField RW_dst_op_addr (reg_num t))]
               else ret)
            else ret)
         else ret)
      else if ttype t = NUMBER then
        (if oc = 1 \<and> op = 12 then
           cont [(ic - oc, SetField FW_dst_op_addr 1), (ic, SetType IMMDT_DRCT_WORD_TYPE),
                 (ic, SetField ID_operand (atoi (tvalue t)))]
         else ret)
      else if ttype t = LABEL then
        (if oc = 1 then
           (if op \<in> one_ops then
              cont [(ic - oc, SetType FIRST_WORD_TYPE), (ic - oc, SetField FW_dst_op_addr 3),
                    (ic, SetType IMMDT_DRCT_WORD_TYPE), (ic, SetIsLabel True),
                    (ic, SetName (cstr (tvalue t)))]
            else ret)
         else ret)
      else if ttype t = COMMA then Inr (None, img, oc - 1, cc + 1)
      else cont [])"

text \<open>
  The loop guards.  \<^verbatim>\<open>parseTwoOperands\<close> tests \<^verbatim>\<open>*(IC + *DC) < MAX_MEMORY_SPACE\<close>:
  pointer arithmetic on the address of \<open>IC\<close>, which reads \<open>IC\<close> itself when \<open>DC = 0\<close>
  and is undefined behaviour otherwise.  \<^verbatim>\<open>parseOneOperand\<close> tests
  \<^verbatim>\<open>(*IC + *DC) < MAX_MEMORY_SPACE\<close>.
\<close>

definition twoOps_guard :: "int \<Rightarrow> int \<Rightarrow> bool cres" where
  "twoOps_guard ic dc = (if dc = 0 then Inr (ic < MAX_MEMORY_SPACE) else Inl Undefined_behaviour)"

definition oneOp_guard :: "int \<Rightarrow> int \<Rightarrow> bool cres" where
  "oneOp_guard ic dc = Inr (ic + dc < MAX_MEMORY_SPACE)"

text \<open>
  The operand loop both handlers share: while the cursor is not at the NUL and the guard
  holds, read a token; \<open>END\<close> breaks; otherwise count it as an operand and run the step.
\<close>

function operand_loop ::
  "(int \<Rightarrow> int \<Rightarrow> bool cres)
   \<Rightarrow> (Token \<Rightarrow> int \<Rightarrow> int \<Rightarrow> image \<Rightarrow> (bool option \<times> image \<times> int \<times> int) cres)
   \<Rightarrow> int \<Rightarrow> int \<Rightarrow> char list \<Rightarrow> image \<Rightarrow> int \<Rightarrow> int \<Rightarrow> (loop_exit \<times> image \<times> int \<times> int) cres" where
  "operand_loop guard step ic dc line img oc cc =
     (if peek line = NUL then Inr (Loop_done, img, oc, cc)
      else cbind (guard ic dc) (\<lambda>ok.
        if \<not> ok then Inr (Loop_done, img, oc, cc)
        else cbind (getNextToken line) (\<lambda>(t, line').
          if ttype t = END then Inr (Loop_done, img, oc, cc)
          else cbind (step t (oc + 1) cc img) (\<lambda>(r, img', oc', cc').
            case r of
              Some b \<Rightarrow> Inr (Loop_return b, img', oc', cc')
            | None \<Rightarrow> operand_loop guard step ic dc line' img' oc' cc'))))"
  by pat_completeness auto
termination
  by (relation "measure (\<lambda>(guard, step, ic, dc, line, img, oc, cc). length line)")
     (auto dest: getNextToken_progress)

declare operand_loop.simps [simp del]


text \<open>
  \<^verbatim>\<open>parseTwoOperands\<close>: the first word at \<^verbatim>\<open>codeImage[*IC]\<close>, the operand loop,
  then \<^verbatim>\<open>*IC += operandCount\<close> and the three checks.  A return from inside the loop
  leaves \<open>IC\<close> as it was but keeps the words already written.
\<close>

definition parseTwoOperands :: "char list \<Rightarrow> Token \<Rightarrow> asm_state \<Rightarrow> (bool \<times> asm_state) cres" where
  "parseTwoOperands line t st =
     (let op = findOpcode t; ic = IC st in
      if op = -1 then Inr (False, st)
      else cbind (stores [(ic, SetType FIRST_WORD_TYPE), (ic, SetField FW_ARE 0),
                          (ic, SetField FW_op_code op)] (codeImage st)) (\<lambda>img.
        cbind (operand_loop twoOps_guard (twoOps_step op ic) ic (DC st) line img 0 0)
          (\<lambda>(ex, img', oc, cc).
             case ex of
               Loop_return b \<Rightarrow> Inr (b, st\<lparr>codeImage := img'\<rparr>)
             | Loop_done \<Rightarrow>
                 (let st' = st\<lparr>codeImage := img', IC := ic + oc\<rparr> in
                  if MAX_MEMORY_SPACE \<le> IC st' + DC st' then Inr (False, st')
                  else if 1 < cc then Inr (False, st')
                  else if oc \<noteq> 2 then Inr (False, st')
                  else Inr (True, st')))))"

text \<open>\<^verbatim>\<open>parseOneOperand\<close>: the same shape; the first word also gets \<open>src_op_addr = 0\<close>.\<close>

definition parseOneOperand :: "char list \<Rightarrow> Token \<Rightarrow> asm_state \<Rightarrow> (bool \<times> asm_state) cres" where
  "parseOneOperand line t st =
     (let op = findOpcode t; ic = IC st in
      if op = -1 then Inr (False, st)
      else cbind (stores [(ic, SetType FIRST_WORD_TYPE), (ic, SetField FW_ARE 0),
                          (ic, SetField FW_op_code op), (ic, SetField FW_src_op_addr 0)]
                         (codeImage st)) (\<lambda>img.
        cbind (operand_loop oneOp_guard (oneOp_step op ic) ic (DC st) line img 0 0)
          (\<lambda>(ex, img', oc, cc).
             case ex of
               Loop_return b \<Rightarrow> Inr (b, st\<lparr>codeImage := img'\<rparr>)
             | Loop_done \<Rightarrow>
                 (let st' = st\<lparr>codeImage := img', IC := ic + oc\<rparr> in
                  if MAX_MEMORY_SPACE \<le> IC st' + DC st' then Inr (False, st')
                  else if 0 < cc then Inr (False, st')
                  else if 1 < oc then Inr (False, st')
                  else Inr (True, st')))))"

text \<open>
  \<^verbatim>\<open>parseNoOperands\<close>' loop: any token but \<open>END\<close> makes the handler return \<open>FALSE\<close>.
\<close>

function noOps_loop :: "int \<Rightarrow> int \<Rightarrow> char list \<Rightarrow> loop_exit cres" where
  "noOps_loop ic dc line =
     (if peek line \<noteq> NUL \<and> ic + dc < MAX_MEMORY_SPACE then
        cbind (getNextToken line) (\<lambda>(t, line').
          if ttype t \<noteq> END then Inr (Loop_return False) else noOps_loop ic dc line')
      else Inr Loop_done)"
  by pat_completeness auto
termination
  by (relation "measure (\<lambda>(ic, dc, line). length line)") (auto dest: getNextToken_progress)

declare noOps_loop.simps [simp del]

definition parseNoOperands :: "char list \<Rightarrow> Token \<Rightarrow> asm_state \<Rightarrow> (bool \<times> asm_state) cres" where
  "parseNoOperands line t st =
     (let op = findOpcode t; ic = IC st in
      if op = -1 then Inr (False, st)
      else cbind (stores [(ic, SetType FIRST_WORD_TYPE), (ic, SetField FW_ARE 0),
                          (ic, SetField FW_op_code op), (ic, SetField FW_src_op_addr 0)]
                         (codeImage st)) (\<lambda>img.
        cbind (noOps_loop ic (DC st) line) (\<lambda>ex.
          case ex of
            Loop_return b \<Rightarrow> Inr (b, st\<lparr>codeImage := img\<rparr>)
          | Loop_done \<Rightarrow>
              (let st' = st\<lparr>codeImage := img, IC := ic + 1\<rparr> in
               if MAX_MEMORY_SPACE \<le> IC st' + DC st' then Inr (False, st')
               else Inr (True, st')))))"

lemmas instructions_eval [c_eval] =
  isRegister_def findOpcode_def reg_num_def twoOps_step_def oneOp_step_def twoOps_guard_def
  oneOp_guard_def parseTwoOperands_def parseOneOperand_def parseNoOperands_def get_field_def set_field_def

section \<open>The operand loop\<close>

text \<open>
  Unfolding equations for one pass of \<open>operand_loop\<close>, one per exit of the C loop body,
  and the shape of a successful run.  \<open>operand_loop_inv\<close> is the induction principle
  the handler lemmas use: a reflexive and transitive relation between the image and
  counters before and after that every step respects holds of the whole loop.
\<close>

lemma operand_loop_eol:
  "peek line = NUL \<Longrightarrow> operand_loop guard step ic dc line img oc cc = Inr (Loop_done, img, oc, cc)"
  by (subst operand_loop.simps) simp

lemma operand_loop_more:
  "peek line \<noteq> NUL \<Longrightarrow> operand_loop guard step ic dc line img oc cc =
     cbind (guard ic dc) (\<lambda>ok.
        if \<not> ok then Inr (Loop_done, img, oc, cc)
        else cbind (getNextToken line) (\<lambda>(t, line').
          if ttype t = END then Inr (Loop_done, img, oc, cc)
          else cbind (step t (oc + 1) cc img) (\<lambda>(r, img', oc', cc').
            case r of
              Some b \<Rightarrow> Inr (Loop_return b, img', oc', cc')
            | None \<Rightarrow> operand_loop guard step ic dc line' img' oc' cc')))"
  by (subst operand_loop.simps) simp

lemma operand_loop_guard:
  "peek line \<noteq> NUL \<Longrightarrow> guard ic dc = Inr ok \<Longrightarrow> \<not> ok \<Longrightarrow>
   operand_loop guard step ic dc line img oc cc = Inr (Loop_done, img, oc, cc)"
  by (subst operand_loop.simps) simp

lemma operand_loop_guard_Inl:
  "peek line \<noteq> NUL \<Longrightarrow> guard ic dc = Inl e \<Longrightarrow> operand_loop guard step ic dc line img oc cc = Inl e"
  by (subst operand_loop.simps) simp

lemma operand_loop_tok_Inl:
  "peek line \<noteq> NUL \<Longrightarrow> guard ic dc = Inr True \<Longrightarrow> getNextToken line = Inl e \<Longrightarrow>
   operand_loop guard step ic dc line img oc cc = Inl e"
  by (subst operand_loop.simps) simp

lemma operand_loop_END:
  "peek line \<noteq> NUL \<Longrightarrow> guard ic dc = Inr True \<Longrightarrow> getNextToken line = Inr (t, line') \<Longrightarrow>
   ttype t = END \<Longrightarrow> operand_loop guard step ic dc line img oc cc = Inr (Loop_done, img, oc, cc)"
  by (subst operand_loop.simps) simp

lemma operand_loop_step:
  "peek line \<noteq> NUL \<Longrightarrow> guard ic dc = Inr True \<Longrightarrow> getNextToken line = Inr (t, line') \<Longrightarrow>
   ttype t \<noteq> END \<Longrightarrow> operand_loop guard step ic dc line img oc cc =
     cbind (step t (oc + 1) cc img) (\<lambda>(r, img', oc', cc').
       case r of Some b \<Rightarrow> Inr (Loop_return b, img', oc', cc')
       | None \<Rightarrow> operand_loop guard step ic dc line' img' oc' cc')"
  by (subst operand_loop.simps) simp

lemma operand_loop_Inr:
  assumes res: "operand_loop guard step ic dc line img oc cc = Inr res"
  shows "res = (Loop_done, img, oc, cc)
    \<or> (\<exists>t line' r img' oc' cc'. peek line \<noteq> NUL \<and> guard ic dc = Inr True
         \<and> getNextToken line = Inr (t, line') \<and> ttype t \<noteq> END
         \<and> step t (oc + 1) cc img = Inr (r, img', oc', cc')
         \<and> ((\<exists>b. r = Some b \<and> res = (Loop_return b, img', oc', cc'))
            \<or> (r = None \<and> operand_loop guard step ic dc line' img' oc' cc' = Inr res)))"
proof (cases "peek line = NUL")
  case True
  with res show ?thesis by (simp add: operand_loop_eol)
next
  case nn: False
  show ?thesis
  proof (cases "guard ic dc")
    case (Inl e)
    with res nn show ?thesis by (simp add: operand_loop_guard_Inl)
  next
    case (Inr ok)
    show ?thesis
    proof (cases ok)
      case False
      with res nn Inr show ?thesis by (simp add: operand_loop_guard)
    next
      case True
      show ?thesis
      proof (cases "getNextToken line")
        case (Inl e)
        with res nn Inr True show ?thesis by (simp add: operand_loop_tok_Inl)
      next
        case (Inr p)
        obtain t line' where tok: "getNextToken line = Inr (t, line')"
          using Inr by (cases p) auto
        show ?thesis
        proof (cases "ttype t = END")
          case True
          with res nn \<open>guard ic dc = Inr ok\<close> \<open>ok\<close> tok show ?thesis
            by (simp add: operand_loop_END)
        next
          case ne: False
          from res nn \<open>guard ic dc = Inr ok\<close> \<open>ok\<close> tok ne
          have c: "cbind (step t (oc + 1) cc img) (\<lambda>(r, img', oc', cc').
              case r of Some b \<Rightarrow> Inr (Loop_return b, img', oc', cc')
              | None \<Rightarrow> operand_loop guard step ic dc line' img' oc' cc') = Inr res"
            by (simp add: operand_loop_step)
          show ?thesis
          proof (cases "step t (oc + 1) cc img")
            case (Inl e)
            with c show ?thesis by simp
          next
            case (Inr q)
            obtain r img' oc' cc' where q: "q = (r, img', oc', cc')" by (cases q) auto
            from c Inr q have rr: "(case r of Some b \<Rightarrow> Inr (Loop_return b, img', oc', cc')
              | None \<Rightarrow> operand_loop guard step ic dc line' img' oc' cc') = Inr res"
              by simp
            have "(\<exists>b. r = Some b \<and> res = (Loop_return b, img', oc', cc'))
               \<or> (r = None \<and> operand_loop guard step ic dc line' img' oc' cc' = Inr res)"
              using rr by (cases r) auto
            moreover from \<open>guard ic dc = Inr ok\<close> \<open>ok\<close> have "guard ic dc = Inr True" by simp
            ultimately show ?thesis using nn tok ne Inr q by blast
          qed
        qed
      qed
    qed
  qed
qed

lemma operand_loop_ret:
  "(\<And>t oc cc img b r. step t oc cc img = Inr (Some b, r) \<Longrightarrow> \<not> b) \<Longrightarrow>
   operand_loop guard step ic dc line img oc cc = Inr (Loop_return b, x) \<Longrightarrow> \<not> b"
proof (induction guard step ic dc line img oc cc arbitrary: x rule: operand_loop.induct)
  case (1 guard step ic dc line img oc cc)
  from operand_loop_Inr [OF "1.prems"(2)] obtain t line' r img' oc' cc' where
    tok: "peek line \<noteq> NUL" "guard ic dc = Inr True" "getNextToken line = Inr (t, line')"
      "ttype t \<noteq> END" and st: "step t (oc + 1) cc img = Inr (r, img', oc', cc')"
    and alt: "(\<exists>b'. r = Some b' \<and> (Loop_return b, x) = (Loop_return b', img', oc', cc'))
       \<or> (r = None \<and> operand_loop guard step ic dc line' img' oc' cc' = Inr (Loop_return b, x))"
    by auto
  from alt show ?case
  proof
    assume "\<exists>b'. r = Some b' \<and> (Loop_return b, x) = (Loop_return b', img', oc', cc')"
    with st have "step t (oc + 1) cc img = Inr (Some b, img', oc', cc')" by auto
    then show ?thesis by (rule "1.prems"(1))
  next
    assume "r = None \<and> operand_loop guard step ic dc line' img' oc' cc' = Inr (Loop_return b, x)"
    moreover obtain x1 x2 x3 where "x = (x1, x2, x3)" by (cases x) blast
    ultimately show ?thesis using "1.IH" "1.prems"(1) tok st by fastforce
  qed
qed

lemma operand_loop_inv:
  assumes refl: "\<And>x. R x x" and trans: "\<And>x y z. R x y \<Longrightarrow> R y z \<Longrightarrow> R x z"
  shows "(\<And>t oc cc img r img' oc' cc'.
      step t (oc + 1) cc img = Inr (r, img', oc', cc') \<Longrightarrow> R (img, oc, cc) (img', oc', cc')) \<Longrightarrow>
    operand_loop guard step ic dc line img oc cc = Inr (ex, img', oc', cc') \<Longrightarrow>
    R (img, oc, cc) (img', oc', cc')"
proof (induction guard step ic dc line img oc cc arbitrary: ex img' oc' cc' rule: operand_loop.induct)
  case (1 guard step ic dc line img oc cc)
  from operand_loop_Inr [OF "1.prems"(2)] show ?case
  proof
    assume "(ex, img', oc', cc') = (Loop_done, img, oc, cc)"
    then show ?thesis by (simp add: refl)
  next
    assume "\<exists>t line' r img1 oc1 cc1. peek line \<noteq> NUL \<and> guard ic dc = Inr True
         \<and> getNextToken line = Inr (t, line') \<and> ttype t \<noteq> END
         \<and> step t (oc + 1) cc img = Inr (r, img1, oc1, cc1)
         \<and> ((\<exists>b. r = Some b \<and> (ex, img', oc', cc') = (Loop_return b, img1, oc1, cc1))
            \<or> (r = None \<and> operand_loop guard step ic dc line' img1 oc1 cc1 = Inr (ex, img', oc', cc')))"
    then obtain t line' r img1 oc1 cc1 where
      tok: "peek line \<noteq> NUL" "guard ic dc = Inr True" "getNextToken line = Inr (t, line')"
        "ttype t \<noteq> END" and st: "step t (oc + 1) cc img = Inr (r, img1, oc1, cc1)"
      and alt: "(\<exists>b. r = Some b \<and> (ex, img', oc', cc') = (Loop_return b, img1, oc1, cc1))
            \<or> (r = None \<and> operand_loop guard step ic dc line' img1 oc1 cc1 = Inr (ex, img', oc', cc'))"
      by blast
    have r1: "R (img, oc, cc) (img1, oc1, cc1)" using "1.prems"(1) [OF st] .
    from alt show ?thesis
    proof
      assume "\<exists>b. r = Some b \<and> (ex, img', oc', cc') = (Loop_return b, img1, oc1, cc1)"
      with r1 show ?thesis by auto
    next
      assume "r = None \<and> operand_loop guard step ic dc line' img1 oc1 cc1 = Inr (ex, img', oc', cc')"
      then have "R (img1, oc1, cc1) (img', oc', cc')"
        using "1.IH" [OF tok(1) tok(2) _ tok(3) _ tok(4) st] "1.prems"(1) by auto
      with r1 show ?thesis by (rule trans)
    qed
  qed
qed

lemma operand_loop_counts:
  assumes h: "\<And>t oc cc img r img' oc' cc'. step t oc cc img = Inr (r, img', oc', cc') \<Longrightarrow>
      (oc' = oc \<and> cc' = cc) \<or> (oc' = oc - 1 \<and> cc' = cc + 1)"
    and l: "operand_loop guard step ic dc line img oc cc = Inr (ex, img', oc', cc')"
  shows "oc \<le> oc' \<and> cc \<le> cc'"
proof -
  have "(\<lambda>(_::image, a::int, c::int) (_::image, a', c'). a \<le> a' \<and> c \<le> c') (img, oc, cc) (img', oc', cc')"
  proof (rule operand_loop_inv [where R = "\<lambda>(_, a, c) (_, a', c'). a \<le> a' \<and> c \<le> c'", OF _ _ _ l])
    show "(\<lambda>(_, a, c) (_, a', c'). a \<le> a' \<and> c \<le> c') x x" for x :: "image \<times> int \<times> int"
      by (simp split: prod.splits)
    show "(\<lambda>(_, a, c) (_, a', c'). a \<le> a' \<and> c \<le> c') x z"
      if "(\<lambda>(_, a, c) (_, a', c'). a \<le> a' \<and> c \<le> c') x y" "(\<lambda>(_, a, c) (_, a', c'). a \<le> a' \<and> c \<le> c') y z"
      for x y z :: "image \<times> int \<times> int"
      using that by (auto split: prod.splits)
    show "(\<lambda>(_, a, c) (_, a', c'). a \<le> a' \<and> c \<le> c') (img1, oc1, cc1) (img2, oc2, cc2)"
      if "step t (oc1 + 1) cc1 img1 = Inr (r, img2, oc2, cc2)" for t oc1 cc1 img1 r img2 oc2 cc2
      using h [OF that] by auto
  qed
  then show ?thesis by simp
qed

lemma operand_loop_frame:
  assumes h: "\<And>t oc cc img r img' oc' cc' j. step t oc cc img = Inr (r, img', oc', cc') \<Longrightarrow>
      j \<notin> S \<Longrightarrow> img' j = img j"
    and l: "operand_loop guard step ic dc line img oc cc = Inr (ex, img', oc', cc')"
  shows "j \<notin> S \<Longrightarrow> img' j = img j"
proof -
  have "(\<lambda>(i::image, _::int, _::int) (i', _::int, _::int). \<forall>j. j \<notin> S \<longrightarrow> i' j = i j) (img, oc, cc) (img', oc', cc')"
  proof (rule operand_loop_inv [where R = "\<lambda>(i, _, _) (i', _, _). \<forall>j. j \<notin> S \<longrightarrow> i' j = i j", OF _ _ _ l])
    show "(\<lambda>(i, _, _) (i', _, _). \<forall>j. j \<notin> S \<longrightarrow> i' j = i j) x x" for x :: "image \<times> int \<times> int"
      by (simp split: prod.splits)
    show "(\<lambda>(i, _, _) (i', _, _). \<forall>j. j \<notin> S \<longrightarrow> i' j = i j) x z"
      if "(\<lambda>(i, _, _) (i', _, _). \<forall>j. j \<notin> S \<longrightarrow> i' j = i j) x y"
        "(\<lambda>(i, _, _) (i', _, _). \<forall>j. j \<notin> S \<longrightarrow> i' j = i j) y z"
      for x y z :: "image \<times> int \<times> int"
      using that by (auto split: prod.splits)
    show "(\<lambda>(i, _, _) (i', _, _). \<forall>j. j \<notin> S \<longrightarrow> i' j = i j) (img1, oc1, cc1) (img2, oc2, cc2)"
      if "step t (oc1 + 1) cc1 img1 = Inr (r, img2, oc2, cc2)" for t oc1 cc1 img1 r img2 oc2 cc2
      using h [OF that] by auto
  qed
  then show "j \<notin> S \<Longrightarrow> img' j = img j" by simp
qed

text \<open>
  The steps: no step makes its handler return \<open>TRUE\<close>; a step keeps the counters or
  moves one from \<open>operandCount\<close> to \<open>commaCount\<close> (a comma); a step writes only at
  \<open>*IC - 2 .. *IC\<close> and \<open>*IC + 2\<close> (two operands) or at \<open>*IC - 1\<close> and \<open>*IC\<close> (one operand).
\<close>

lemma twoOps_step_ret: "twoOps_step op ic t oc cc img = Inr (Some b, r) \<Longrightarrow> \<not> b"
  by (auto simp: twoOps_step_def Let_def cbind_eq_Inr split: if_splits)

lemma oneOp_step_ret: "oneOp_step op ic t oc cc img = Inr (Some b, r) \<Longrightarrow> \<not> b"
  by (auto simp: oneOp_step_def Let_def cbind_eq_Inr split: if_splits)

lemma twoOps_step_counts:
  "twoOps_step op ic t oc cc img = Inr (r, img', oc', cc') \<Longrightarrow>
   (oc' = oc \<and> cc' = cc) \<or> (oc' = oc - 1 \<and> cc' = cc + 1)"
  by (auto simp: twoOps_step_def Let_def cbind_eq_Inr split: if_splits)

lemma oneOp_step_counts:
  "oneOp_step op ic t oc cc img = Inr (r, img', oc', cc') \<Longrightarrow>
   (oc' = oc \<and> cc' = cc) \<or> (oc' = oc - 1 \<and> cc' = cc + 1)"
  by (auto simp: oneOp_step_def Let_def cbind_eq_Inr split: if_splits)

lemma twoOps_step_frame:
  "twoOps_step op ic t oc cc img = Inr (r, img', oc', cc') \<Longrightarrow>
   int j \<notin> {ic - 2, ic - 1, ic, ic + 2} \<Longrightarrow> img' j = img j"
  by (auto simp: twoOps_step_def Let_def cbind_eq_Inr split: if_splits simp del: stores.simps intro: stores_other)

lemma oneOp_step_frame:
  "oneOp_step op ic t oc cc img = Inr (r, img', oc', cc') \<Longrightarrow>
   int j \<notin> {ic - 1, ic} \<Longrightarrow> img' j = img j"
  by (auto simp: oneOp_step_def Let_def cbind_eq_Inr split: if_splits simp del: stores.simps intro: stores_other)

lemma twoOps_loop_ret:
  "operand_loop guard (twoOps_step op ic) ic' dc line img oc cc = Inr (Loop_return b, x) \<Longrightarrow> \<not> b"
  by (erule operand_loop_ret [rotated]) (rule twoOps_step_ret)

lemma oneOp_loop_ret:
  "operand_loop guard (oneOp_step op ic) ic' dc line img oc cc = Inr (Loop_return b, x) \<Longrightarrow> \<not> b"
  by (erule operand_loop_ret [rotated]) (rule oneOp_step_ret)

lemma twoOps_loop_counts:
  "operand_loop guard (twoOps_step op ic) ic' dc line img oc cc = Inr (ex, img', oc', cc') \<Longrightarrow>
   oc \<le> oc' \<and> cc \<le> cc'"
  by (erule operand_loop_counts [rotated]) (rule twoOps_step_counts)

lemma oneOp_loop_counts:
  "operand_loop guard (oneOp_step op ic) ic' dc line img oc cc = Inr (ex, img', oc', cc') \<Longrightarrow>
   oc \<le> oc' \<and> cc \<le> cc'"
  by (erule operand_loop_counts [rotated]) (rule oneOp_step_counts)

lemma twoOps_loop_frame:
  "operand_loop guard (twoOps_step op ic) ic' dc line img oc cc = Inr (ex, img', oc', cc') \<Longrightarrow>
   int j \<notin> {ic - 2, ic - 1, ic, ic + 2} \<Longrightarrow> img' j = img j"
  by (rule operand_loop_frame [where S = "{j. int j \<in> {ic - 2, ic - 1, ic, ic + 2}}"])
     (auto intro: twoOps_step_frame)

lemma oneOp_loop_frame:
  "operand_loop guard (oneOp_step op ic) ic' dc line img oc cc = Inr (ex, img', oc', cc') \<Longrightarrow>
   int j \<notin> {ic - 1, ic} \<Longrightarrow> img' j = img j"
  by (rule operand_loop_frame [where S = "{j. int j \<in> {ic - 1, ic}}"])
     (auto intro: oneOp_step_frame)

lemma twoOps_loop_guard:
  "operand_loop twoOps_guard step ic dc line img oc cc = Inr (ex, img', oc', cc') \<Longrightarrow>
   (ex, img', oc', cc') = (Loop_done, img, oc, cc) \<or> dc = 0"
  by (drule operand_loop_Inr) (auto simp: twoOps_guard_def split: if_splits)

lemma twoOps_loop_UB:
  "dc \<noteq> 0 \<Longrightarrow> peek line \<noteq> NUL \<Longrightarrow>
   operand_loop twoOps_guard step ic dc line img oc cc = Inl Undefined_behaviour"
  by (rule operand_loop_guard_Inl) (simp_all add: twoOps_guard_def)

lemma noOps_loop_ret: "noOps_loop ic dc line = Inr (Loop_return b) \<Longrightarrow> \<not> b"
proof (induction ic dc line rule: noOps_loop.induct)
  case (1 ic dc line)
  show ?case
  proof (cases "peek line \<noteq> NUL \<and> ic + dc < MAX_MEMORY_SPACE")
    case True
    with "1.prems" obtain t line' where
      tok: "getNextToken line = Inr (t, line')" and
      r: "(if ttype t \<noteq> END then Inr (Loop_return False) else noOps_loop ic dc line') = Inr (Loop_return b)"
      by (subst (asm) noOps_loop.simps) (auto simp: cbind_eq_Inr)
    show ?thesis
    proof (cases "ttype t = END")
      case True
      with r "1.IH" [OF _ tok] \<open>peek line \<noteq> NUL \<and> ic + dc < MAX_MEMORY_SPACE\<close> show ?thesis by auto
    next
      case False
      with r show ?thesis by simp
    qed
  next
    case False
    with "1.prems" show ?thesis by (subst (asm) noOps_loop.simps) simp
  qed
qed

section \<open>The handlers\<close>

text \<open>How a handler that returned got there: the opcode lookup failed, or the first
  word was written, the loop ran, and the handler returned from inside it or after it.\<close>

lemma parseTwoOperands_cases:
  assumes "parseTwoOperands line t st = Inr (b, st')"
  shows "(findOpcode t = -1 \<and> \<not> b \<and> st' = st) \<or>
    (\<exists>img ex img' oc cc. findOpcode t \<noteq> -1 \<and>
       stores [(IC st, SetType FIRST_WORD_TYPE), (IC st, SetField FW_ARE 0),
               (IC st, SetField FW_op_code (findOpcode t))] (codeImage st) = Inr img \<and>
       operand_loop twoOps_guard (twoOps_step (findOpcode t) (IC st)) (IC st) (DC st) line img 0 0
         = Inr (ex, img', oc, cc) \<and>
       (case ex of Loop_return b' \<Rightarrow> b = b' \<and> st' = st\<lparr>codeImage := img'\<rparr>
        | Loop_done \<Rightarrow> st' = st\<lparr>codeImage := img', IC := IC st + oc\<rparr> \<and>
            b = (IC st + oc + DC st < MAX_MEMORY_SPACE \<and> cc \<le> 1 \<and> oc = 2)))"
proof (cases "findOpcode t = -1")
  case True
  with assms show ?thesis by (simp add: parseTwoOperands_def)
next
  case op: False
  let ?ws = "[(IC st, SetType FIRST_WORD_TYPE), (IC st, SetField FW_ARE 0),
              (IC st, SetField FW_op_code (findOpcode t))]"
  let ?lp = "operand_loop twoOps_guard (twoOps_step (findOpcode t) (IC st)) (IC st) (DC st) line"
  show ?thesis
  proof (cases "stores ?ws (codeImage st)")
    case (Inl e)
    with assms op show ?thesis by (simp add: parseTwoOperands_def del: stores.simps)
  next
    case s1: (Inr img)
    show ?thesis
    proof (cases "?lp img 0 0")
      case (Inl e)
      with assms op s1 show ?thesis by (simp add: parseTwoOperands_def del: stores.simps)
    next
      case (Inr x)
      obtain ex img' oc cc where x: "x = (ex, img', oc, cc)" by (cases x) blast
      show ?thesis
      proof (cases ex)
        case Loop_done
        with assms op s1 Inr x show ?thesis
          by (auto simp: parseTwoOperands_def Let_def simp del: stores.simps split: if_splits)
      next
        case (Loop_return b')
        with assms op s1 Inr x show ?thesis
          by (auto simp: parseTwoOperands_def simp del: stores.simps)
      qed
    qed
  qed
qed

lemma parseOneOperand_cases:
  assumes "parseOneOperand line t st = Inr (b, st')"
  shows "(findOpcode t = -1 \<and> \<not> b \<and> st' = st) \<or>
    (\<exists>img ex img' oc cc. findOpcode t \<noteq> -1 \<and>
       stores [(IC st, SetType FIRST_WORD_TYPE), (IC st, SetField FW_ARE 0),
               (IC st, SetField FW_op_code (findOpcode t)), (IC st, SetField FW_src_op_addr 0)]
         (codeImage st) = Inr img \<and>
       operand_loop oneOp_guard (oneOp_step (findOpcode t) (IC st)) (IC st) (DC st) line img 0 0
         = Inr (ex, img', oc, cc) \<and>
       (case ex of Loop_return b' \<Rightarrow> b = b' \<and> st' = st\<lparr>codeImage := img'\<rparr>
        | Loop_done \<Rightarrow> st' = st\<lparr>codeImage := img', IC := IC st + oc\<rparr> \<and>
            b = (IC st + oc + DC st < MAX_MEMORY_SPACE \<and> cc \<le> 0 \<and> oc \<le> 1)))"
proof (cases "findOpcode t = -1")
  case True
  with assms show ?thesis by (simp add: parseOneOperand_def)
next
  case op: False
  let ?ws = "[(IC st, SetType FIRST_WORD_TYPE), (IC st, SetField FW_ARE 0),
              (IC st, SetField FW_op_code (findOpcode t)), (IC st, SetField FW_src_op_addr 0)]"
  let ?lp = "operand_loop oneOp_guard (oneOp_step (findOpcode t) (IC st)) (IC st) (DC st) line"
  show ?thesis
  proof (cases "stores ?ws (codeImage st)")
    case (Inl e)
    with assms op show ?thesis by (simp add: parseOneOperand_def del: stores.simps)
  next
    case s1: (Inr img)
    show ?thesis
    proof (cases "?lp img 0 0")
      case (Inl e)
      with assms op s1 show ?thesis by (simp add: parseOneOperand_def del: stores.simps)
    next
      case (Inr x)
      obtain ex img' oc cc where x: "x = (ex, img', oc, cc)" by (cases x) blast
      show ?thesis
      proof (cases ex)
        case Loop_done
        with assms op s1 Inr x show ?thesis
          by (auto simp: parseOneOperand_def Let_def simp del: stores.simps split: if_splits)
      next
        case (Loop_return b')
        with assms op s1 Inr x show ?thesis
          by (auto simp: parseOneOperand_def simp del: stores.simps)
      qed
    qed
  qed
qed

text \<open>
  Whatever a handler returns, it changes only the code image and \<open>IC\<close>, and \<open>IC\<close>
  does not go down: the operand count it adds is never negative.
\<close>

lemma parseTwoOperands_mono:
  assumes "parseTwoOperands line t st = Inr (b, st')"
  shows "IC st \<le> IC st' \<and> DC st' = DC st \<and> dataImage st' = dataImage st \<and> labelTable st' = labelTable st"
  using parseTwoOperands_cases [OF assms]
proof
  assume "findOpcode t = -1 \<and> \<not> b \<and> st' = st"
  then show ?thesis by simp
next
  assume "\<exists>img ex img' oc cc. findOpcode t \<noteq> -1 \<and>
       stores [(IC st, SetType FIRST_WORD_TYPE), (IC st, SetField FW_ARE 0),
               (IC st, SetField FW_op_code (findOpcode t))] (codeImage st) = Inr img \<and>
       operand_loop twoOps_guard (twoOps_step (findOpcode t) (IC st)) (IC st) (DC st) line img 0 0
         = Inr (ex, img', oc, cc) \<and>
       (case ex of Loop_return b' \<Rightarrow> b = b' \<and> st' = st\<lparr>codeImage := img'\<rparr>
        | Loop_done \<Rightarrow> st' = st\<lparr>codeImage := img', IC := IC st + oc\<rparr> \<and>
            b = (IC st + oc + DC st < MAX_MEMORY_SPACE \<and> cc \<le> 1 \<and> oc = 2))"
  then obtain img ex img' oc cc where
    lp: "operand_loop twoOps_guard (twoOps_step (findOpcode t) (IC st)) (IC st) (DC st) line img 0 0
         = Inr (ex, img', oc, cc)" and
    fin: "case ex of Loop_return b' \<Rightarrow> b = b' \<and> st' = st\<lparr>codeImage := img'\<rparr>
        | Loop_done \<Rightarrow> st' = st\<lparr>codeImage := img', IC := IC st + oc\<rparr> \<and>
            b = (IC st + oc + DC st < MAX_MEMORY_SPACE \<and> cc \<le> 1 \<and> oc = 2)"
    by blast
  have "0 \<le> oc" using twoOps_loop_counts [OF lp] by simp
  with fin show ?thesis by (cases ex) auto
qed

lemma parseOneOperand_mono:
  assumes "parseOneOperand line t st = Inr (b, st')"
  shows "IC st \<le> IC st' \<and> DC st' = DC st \<and> dataImage st' = dataImage st \<and> labelTable st' = labelTable st"
  using parseOneOperand_cases [OF assms]
proof
  assume "findOpcode t = -1 \<and> \<not> b \<and> st' = st"
  then show ?thesis by simp
next
  assume "\<exists>img ex img' oc cc. findOpcode t \<noteq> -1 \<and>
       stores [(IC st, SetType FIRST_WORD_TYPE), (IC st, SetField FW_ARE 0),
               (IC st, SetField FW_op_code (findOpcode t)), (IC st, SetField FW_src_op_addr 0)]
         (codeImage st) = Inr img \<and>
       operand_loop oneOp_guard (oneOp_step (findOpcode t) (IC st)) (IC st) (DC st) line img 0 0
         = Inr (ex, img', oc, cc) \<and>
       (case ex of Loop_return b' \<Rightarrow> b = b' \<and> st' = st\<lparr>codeImage := img'\<rparr>
        | Loop_done \<Rightarrow> st' = st\<lparr>codeImage := img', IC := IC st + oc\<rparr> \<and>
            b = (IC st + oc + DC st < MAX_MEMORY_SPACE \<and> cc \<le> 0 \<and> oc \<le> 1))"
  then obtain img ex img' oc cc where
    lp: "operand_loop oneOp_guard (oneOp_step (findOpcode t) (IC st)) (IC st) (DC st) line img 0 0
         = Inr (ex, img', oc, cc)" and
    fin: "case ex of Loop_return b' \<Rightarrow> b = b' \<and> st' = st\<lparr>codeImage := img'\<rparr>
        | Loop_done \<Rightarrow> st' = st\<lparr>codeImage := img', IC := IC st + oc\<rparr> \<and>
            b = (IC st + oc + DC st < MAX_MEMORY_SPACE \<and> cc \<le> 0 \<and> oc \<le> 1)"
    by blast
  have "0 \<le> oc" using oneOp_loop_counts [OF lp] by simp
  with fin show ?thesis by (cases ex) auto
qed

lemma parseNoOperands_mono:
  assumes "parseNoOperands line t st = Inr (b, st')"
  shows "IC st \<le> IC st' \<and> DC st' = DC st \<and> dataImage st' = dataImage st \<and> labelTable st' = labelTable st"
proof (cases "findOpcode t = -1")
  case True
  with assms show ?thesis by (simp add: parseNoOperands_def)
next
  case op: False
  let ?ws = "[(IC st, SetType FIRST_WORD_TYPE), (IC st, SetField FW_ARE 0),
              (IC st, SetField FW_op_code (findOpcode t)), (IC st, SetField FW_src_op_addr 0)]"
  show ?thesis
  proof (cases "stores ?ws (codeImage st)")
    case (Inl e)
    with assms op show ?thesis by (simp add: parseNoOperands_def del: stores.simps)
  next
    case s1: (Inr img)
    show ?thesis
    proof (cases "noOps_loop (IC st) (DC st) line")
      case (Inl e)
      with assms op s1 show ?thesis by (simp add: parseNoOperands_def del: stores.simps)
    next
      case (Inr ex)
      with assms op s1 show ?thesis
        by (cases ex) (auto simp: parseNoOperands_def Let_def simp del: stores.simps split: if_splits)
    qed
  qed
qed

section \<open>Properties of the instruction encoder\<close>

text \<open>
  C3.  When \<^verbatim>\<open>parseTwoOperands\<close> accepts a line, it has advanced \<open>IC\<close> by exactly
  two (the number of operands, not the three words of the instruction), the new
  \<open>IC + DC\<close> is below \<open>MAX_MEMORY_SPACE\<close>, \<open>DC\<close> was zero, and \<open>DC\<close>, the data image
  and the label table are unchanged.
\<close>

theorem parseTwoOperands_accept:
  assumes "parseTwoOperands line t st = Inr (True, st')"
  shows "IC st' = IC st + 2 \<and> IC st' + DC st' < MAX_MEMORY_SPACE \<and> DC st = 0 \<and>
    DC st' = DC st \<and> dataImage st' = dataImage st \<and> labelTable st' = labelTable st"
proof -
  from parseTwoOperands_cases [OF assms] obtain img ex img' oc cc where
    lp: "operand_loop twoOps_guard (twoOps_step (findOpcode t) (IC st)) (IC st) (DC st) line img 0 0
         = Inr (ex, img', oc, cc)" and
    fin: "case ex of Loop_return b' \<Rightarrow> True = b' \<and> st' = st\<lparr>codeImage := img'\<rparr>
        | Loop_done \<Rightarrow> st' = st\<lparr>codeImage := img', IC := IC st + oc\<rparr> \<and>
            True = (IC st + oc + DC st < MAX_MEMORY_SPACE \<and> cc \<le> 1 \<and> oc = 2)"
    by blast
  show ?thesis
  proof (cases ex)
    case (Loop_return b')
    with fin lp have "operand_loop twoOps_guard (twoOps_step (findOpcode t) (IC st)) (IC st) (DC st)
        line img 0 0 = Inr (Loop_return True, img', oc, cc)" by simp
    then show ?thesis by (blast dest: twoOps_loop_ret)
  next
    case Loop_done
    with fin have st': "st' = st\<lparr>codeImage := img', IC := IC st + 2\<rparr>"
      and bound: "IC st + 2 + DC st < MAX_MEMORY_SPACE" and oc: "oc = 2" by auto
    from twoOps_loop_guard [OF lp] oc have "DC st = 0" by auto
    with st' bound show ?thesis by simp
  qed
qed

theorem parseTwoOperands_accept_witness:
  "\<exists>st'. parseTwoOperands ('' @r3,@r5'' @ [CHR 0x0A]) \<lparr>ttype = TWO_OPERANDS, tvalue = ''mov'' @ [NUL]\<rparr> \<lparr>codeImage = \<lambda>_. undefined, dataImage = \<lambda>_. undefined, labelTable = [], IC = 2, DC = 0\<rparr> = Inr (True, st') \<and> IC st' = 4
     \<and> IC st' + DC st' < MAX_MEMORY_SPACE"
proof -
  have "\<exists>st'. parseTwoOperands ('' @r3,@r5'' @ [CHR 0x0A]) \<lparr>ttype = TWO_OPERANDS, tvalue = ''mov'' @ [NUL]\<rparr> \<lparr>codeImage = \<lambda>_. undefined, dataImage = \<lambda>_. undefined, labelTable = [], IC = 2, DC = 0\<rparr> = Inr (True, st')"
    by (simp add: c_eval Let_def operand_loop_eol operand_loop_more)
  then obtain st' where r: "parseTwoOperands ('' @r3,@r5'' @ [CHR 0x0A]) \<lparr>ttype = TWO_OPERANDS, tvalue = ''mov'' @ [NUL]\<rparr> \<lparr>codeImage = \<lambda>_. undefined, dataImage = \<lambda>_. undefined, labelTable = [], IC = 2, DC = 0\<rparr> = Inr (True, st')" ..
  with parseTwoOperands_accept [OF r] show ?thesis by auto
qed

text \<open>
  C4.  Whatever \<^verbatim>\<open>parseTwoOperands\<close> returns, the only code-image words it changes
  are those at \<open>IC - 2\<close>, \<open>IC - 1\<close>, \<open>IC\<close> and \<open>IC + 2\<close>: it writes into the two words
  before the instruction, which belong to earlier instructions, and into the word after
  its own operands.
\<close>

theorem parseTwoOperands_window:
  assumes "parseTwoOperands line t st = Inr (b, st')"
    and "int j \<notin> {IC st - 2, IC st - 1, IC st, IC st + 2}"
  shows "codeImage st' j = codeImage st j"
  using parseTwoOperands_cases [OF assms(1)]
proof
  assume "findOpcode t = -1 \<and> \<not> b \<and> st' = st"
  then show ?thesis by simp
next
  assume "\<exists>img ex img' oc cc. findOpcode t \<noteq> -1 \<and>
       stores [(IC st, SetType FIRST_WORD_TYPE), (IC st, SetField FW_ARE 0),
               (IC st, SetField FW_op_code (findOpcode t))] (codeImage st) = Inr img \<and>
       operand_loop twoOps_guard (twoOps_step (findOpcode t) (IC st)) (IC st) (DC st) line img 0 0
         = Inr (ex, img', oc, cc) \<and>
       (case ex of Loop_return b' \<Rightarrow> b = b' \<and> st' = st\<lparr>codeImage := img'\<rparr>
        | Loop_done \<Rightarrow> st' = st\<lparr>codeImage := img', IC := IC st + oc\<rparr> \<and>
            b = (IC st + oc + DC st < MAX_MEMORY_SPACE \<and> cc \<le> 1 \<and> oc = 2))"
  then obtain img ex img' oc cc where
    s1: "stores [(IC st, SetType FIRST_WORD_TYPE), (IC st, SetField FW_ARE 0),
               (IC st, SetField FW_op_code (findOpcode t))] (codeImage st) = Inr img" and
    lp: "operand_loop twoOps_guard (twoOps_step (findOpcode t) (IC st)) (IC st) (DC st) line img 0 0
         = Inr (ex, img', oc, cc)" and
    fin: "case ex of Loop_return b' \<Rightarrow> b = b' \<and> st' = st\<lparr>codeImage := img'\<rparr>
        | Loop_done \<Rightarrow> st' = st\<lparr>codeImage := img', IC := IC st + oc\<rparr> \<and>
            b = (IC st + oc + DC st < MAX_MEMORY_SPACE \<and> cc \<le> 1 \<and> oc = 2)"
    by blast
  from fin have img': "codeImage st' = img'" by (cases ex) auto
  have "img j = codeImage st j" using stores_other [OF s1] assms(2) by auto
  moreover have "img' j = img j" using twoOps_loop_frame [OF lp] assms(2) by blast
  ultimately show ?thesis using img' by simp
qed

theorem parseTwoOperands_window_witness:
  "\<exists>b st'. parseTwoOperands ('' @r3,@r5'' @ [CHR 0x0A]) \<lparr>ttype = TWO_OPERANDS, tvalue = ''mov'' @ [NUL]\<rparr> \<lparr>codeImage = \<lambda>_. undefined, dataImage = \<lambda>_. undefined, labelTable = [], IC = 2, DC = 0\<rparr> = Inr (b, st') \<and> codeImage st' 10 = undefined"
proof -
  have "\<exists>st'. parseTwoOperands ('' @r3,@r5'' @ [CHR 0x0A]) \<lparr>ttype = TWO_OPERANDS, tvalue = ''mov'' @ [NUL]\<rparr> \<lparr>codeImage = \<lambda>_. undefined, dataImage = \<lambda>_. undefined, labelTable = [], IC = 2, DC = 0\<rparr> = Inr (True, st')"
    by (simp add: c_eval Let_def operand_loop_eol operand_loop_more)
  then obtain st' where r: "parseTwoOperands ('' @r3,@r5'' @ [CHR 0x0A]) \<lparr>ttype = TWO_OPERANDS, tvalue = ''mov'' @ [NUL]\<rparr> \<lparr>codeImage = \<lambda>_. undefined, dataImage = \<lambda>_. undefined, labelTable = [], IC = 2, DC = 0\<rparr> = Inr (True, st')" by blast
  have "codeImage st' 10 = codeImage \<lparr>codeImage = \<lambda>_. undefined, dataImage = \<lambda>_. undefined, labelTable = [], IC = 2, DC = 0\<rparr> 10"
    by (rule parseTwoOperands_window [OF r]) simp
  then have "codeImage st' 10 = undefined" by simp
  with r show ?thesis by blast
qed

text \<open>
  C5.  When \<open>DC\<close> is not zero, a two-operand instruction with a valid mnemonic and a
  non-empty rest of line is undefined behaviour: the loop guard
  \<^verbatim>\<open>*(IC + *DC)\<close> dereferences a pointer \<open>DC\<close> ints past \<open>IC\<close>.
\<close>

theorem parseTwoOperands_DC_UB:
  "DC st \<noteq> 0 \<Longrightarrow> 0 \<le> IC st \<Longrightarrow> IC st < MAX_MEMORY_SPACE \<Longrightarrow> findOpcode t \<noteq> -1 \<Longrightarrow>
   peek line \<noteq> NUL \<Longrightarrow> parseTwoOperands line t st = Inl Undefined_behaviour"
  by (simp add: parseTwoOperands_def Let_def twoOps_loop_UB)

theorem parseTwoOperands_DC_UB_witness:
  "parseTwoOperands ('' @r3,@r5'' @ [CHR 0x0A]) \<lparr>ttype = TWO_OPERANDS, tvalue = ''mov'' @ [NUL]\<rparr> (\<lparr>codeImage = \<lambda>_. undefined, dataImage = \<lambda>_. undefined, labelTable = [], IC = 2, DC = 0\<rparr>\<lparr>DC := 1\<rparr>) = Inl Undefined_behaviour"
  by (rule parseTwoOperands_DC_UB) (simp_all add: c_eval)

text \<open>
  C6.  When \<^verbatim>\<open>parseOneOperand\<close> accepts a line, \<open>IC\<close> has advanced by zero or one,
  \<open>IC + DC\<close> is below \<open>MAX_MEMORY_SPACE\<close>, and \<open>DC\<close>, the data image and the label
  table are unchanged.
\<close>

theorem parseOneOperand_accept:
  assumes "parseOneOperand line t st = Inr (True, st')"
  shows "IC st \<le> IC st' \<and> IC st' \<le> IC st + 1 \<and> IC st' + DC st' < MAX_MEMORY_SPACE \<and>
    DC st' = DC st \<and> dataImage st' = dataImage st \<and> labelTable st' = labelTable st"
proof -
  from parseOneOperand_cases [OF assms] obtain img ex img' oc cc where
    lp: "operand_loop oneOp_guard (oneOp_step (findOpcode t) (IC st)) (IC st) (DC st) line img 0 0
         = Inr (ex, img', oc, cc)" and
    fin: "case ex of Loop_return b' \<Rightarrow> True = b' \<and> st' = st\<lparr>codeImage := img'\<rparr>
        | Loop_done \<Rightarrow> st' = st\<lparr>codeImage := img', IC := IC st + oc\<rparr> \<and>
            True = (IC st + oc + DC st < MAX_MEMORY_SPACE \<and> cc \<le> 0 \<and> oc \<le> 1)"
    by blast
  show ?thesis
  proof (cases ex)
    case (Loop_return b')
    with fin lp have "operand_loop oneOp_guard (oneOp_step (findOpcode t) (IC st)) (IC st) (DC st)
        line img 0 0 = Inr (Loop_return True, img', oc, cc)" by simp
    then show ?thesis by (blast dest: oneOp_loop_ret)
  next
    case Loop_done
    with fin have "st' = st\<lparr>codeImage := img', IC := IC st + oc\<rparr>"
      and "IC st + oc + DC st < MAX_MEMORY_SPACE" and "oc \<le> 1" by auto
    moreover have "0 \<le> oc" using oneOp_loop_counts [OF lp] by simp
    ultimately show ?thesis by simp
  qed
qed

theorem parseOneOperand_accept_witness:
  "\<exists>st'. parseOneOperand ('' @r3'' @ [CHR 0x0A]) \<lparr>ttype = ONE_OPERAND, tvalue = ''inc'' @ [NUL]\<rparr> \<lparr>codeImage = \<lambda>_. undefined, dataImage = \<lambda>_. undefined, labelTable = [], IC = 2, DC = 0\<rparr>
     = Inr (True, st') \<and> 2 \<le> IC st' \<and> IC st' \<le> 3"
proof -
  have "\<exists>st'. parseOneOperand ('' @r3'' @ [CHR 0x0A]) \<lparr>ttype = ONE_OPERAND, tvalue = ''inc'' @ [NUL]\<rparr> \<lparr>codeImage = \<lambda>_. undefined, dataImage = \<lambda>_. undefined, labelTable = [], IC = 2, DC = 0\<rparr>
     = Inr (True, st')"
    by (simp add: c_eval Let_def operand_loop_eol operand_loop_more)
  then obtain st' where r: "parseOneOperand ('' @r3'' @ [CHR 0x0A])
      \<lparr>ttype = ONE_OPERAND, tvalue = ''inc'' @ [NUL]\<rparr> \<lparr>codeImage = \<lambda>_. undefined, dataImage = \<lambda>_. undefined, labelTable = [], IC = 2, DC = 0\<rparr> = Inr (True, st')" ..
  from parseOneOperand_accept [OF r] r show ?thesis by auto
qed

text \<open>
  C7.  When \<^verbatim>\<open>parseNoOperands\<close> accepts a line, \<open>IC\<close> has advanced by exactly one,
  \<open>IC + DC\<close> is below \<open>MAX_MEMORY_SPACE\<close>, and \<open>DC\<close>, the data image and the label
  table are unchanged.
\<close>

theorem parseNoOperands_accept:
  assumes "parseNoOperands line t st = Inr (True, st')"
  shows "IC st' = IC st + 1 \<and> IC st' + DC st' < MAX_MEMORY_SPACE \<and>
    DC st' = DC st \<and> dataImage st' = dataImage st \<and> labelTable st' = labelTable st"
proof (cases "findOpcode t = -1")
  case True
  with assms show ?thesis by (simp add: parseNoOperands_def)
next
  case op: False
  let ?ws = "[(IC st, SetType FIRST_WORD_TYPE), (IC st, SetField FW_ARE 0),
              (IC st, SetField FW_op_code (findOpcode t)), (IC st, SetField FW_src_op_addr 0)]"
  show ?thesis
  proof (cases "stores ?ws (codeImage st)")
    case (Inl e)
    with assms op show ?thesis by (simp add: parseNoOperands_def del: stores.simps)
  next
    case s1: (Inr img)
    show ?thesis
    proof (cases "noOps_loop (IC st) (DC st) line")
      case (Inl e)
      with assms op s1 show ?thesis by (simp add: parseNoOperands_def del: stores.simps)
    next
      case (Inr ex)
      show ?thesis
      proof (cases ex)
        case Loop_done
        with assms op s1 Inr show ?thesis
          by (auto simp: parseNoOperands_def Let_def simp del: stores.simps split: if_splits)
      next
        case (Loop_return b)
        with assms op s1 Inr show ?thesis
          by (auto simp: parseNoOperands_def simp del: stores.simps dest: noOps_loop_ret)
      qed
    qed
  qed
qed

theorem parseNoOperands_accept_witness:
  "\<exists>st'. parseNoOperands [CHR 0x0A] \<lparr>ttype = NO_OPERANDS, tvalue = ''stop'' @ [NUL]\<rparr> \<lparr>codeImage = \<lambda>_. undefined, dataImage = \<lambda>_. undefined, labelTable = [], IC = 2, DC = 0\<rparr>
     = Inr (True, st') \<and> IC st' = 3"
proof -
  have "\<exists>st'. parseNoOperands [CHR 0x0A] \<lparr>ttype = NO_OPERANDS, tvalue = ''stop'' @ [NUL]\<rparr> \<lparr>codeImage = \<lambda>_. undefined, dataImage = \<lambda>_. undefined, labelTable = [], IC = 2, DC = 0\<rparr>
     = Inr (True, st')"
    by (simp add: c_eval Let_def operand_loop_eol operand_loop_more noOps_loop.simps)
  then obtain st' where r: "parseNoOperands [CHR 0x0A]
      \<lparr>ttype = NO_OPERANDS, tvalue = ''stop'' @ [NUL]\<rparr> \<lparr>codeImage = \<lambda>_. undefined, dataImage = \<lambda>_. undefined, labelTable = [], IC = 2, DC = 0\<rparr> = Inr (True, st')" ..
  from parseNoOperands_accept [OF r] r show ?thesis by auto
qed

text \<open>
  C8.  The encoding of two register operands (\<open>add @r3,@r5\<close> with \<open>IC \<ge> 2\<close>) is
  accepted, but the word at \<open>IC\<close>, which first held the instruction's first word, ends up
  as a register word with destination 5: its op-code bits read 0 instead of the opcode
  of \<open>add\<close>, and the source register 3 is overwritten.
\<close>

theorem twoOps_register_pair_encoding:
  assumes "2 \<le> IC st" "IC st + 2 < MAX_MEMORY_SPACE" "DC st = 0"
  shows "\<exists>st'. parseTwoOperands ('' @r3,@r5'' @ [CHR 0x0A]) \<lparr>ttype = TWO_OPERANDS, tvalue = ''add'' @ [NUL]\<rparr> st
      = Inr (True, st') \<and> IC st' = IC st + 2 \<and>
      wordType (codeImage st' (nat (IC st))) = RGSTR_WORD_TYPE \<and>
      get_field RW_dst_op_addr (codeImage st' (nat (IC st))) = 5 \<and>
      get_field FW_op_code (codeImage st' (nat (IC st))) = 0"
proof -
  define n where "n = nat (IC st - 2)"
  have n: "IC st = int n + 2" using assms(1) by (simp add: n_def)
  show ?thesis
  using assms
  by (simp add: n c_eval Let_def nat_add_distrib operand_loop_eol operand_loop_more get_set_field_same get_set_field_disjoint
        get_set_field_within del: bf_eval get_field_def set_field_def)
qed

theorem twoOps_register_pair_encoding_witness:
  "\<exists>st'. parseTwoOperands ('' @r3,@r5'' @ [CHR 0x0A]) \<lparr>ttype = TWO_OPERANDS, tvalue = ''add'' @ [NUL]\<rparr> \<lparr>codeImage = \<lambda>_. undefined, dataImage = \<lambda>_. undefined, labelTable = [], IC = 2, DC = 0\<rparr>
      = Inr (True, st') \<and> IC st' = 4 \<and>
      wordType (codeImage st' 2) = RGSTR_WORD_TYPE \<and>
      get_field RW_dst_op_addr (codeImage st' 2) = 5 \<and>
      get_field FW_op_code (codeImage st' 2) = 0"
  using twoOps_register_pair_encoding [of "\<lparr>codeImage = \<lambda>_. undefined, dataImage = \<lambda>_. undefined, labelTable = [], IC = 2, DC = 0\<rparr>"] by (simp add: MAX_MEMORY_SPACE_def)

text \<open>
  C9.  A one-operand instruction with no operand (\<open>inc\<close> alone on its line) is
  accepted, and \<open>IC\<close> does not advance past its first word.
\<close>

theorem oneOp_missing_operand_accepted:
  assumes "0 \<le> IC st" "IC st < MAX_MEMORY_SPACE" "IC st + DC st < MAX_MEMORY_SPACE"
  shows "\<exists>st'. parseOneOperand [CHR 0x0A] \<lparr>ttype = ONE_OPERAND, tvalue = ''inc'' @ [NUL]\<rparr> st = Inr (True, st') \<and> IC st' = IC st"
  using assms by (simp add: c_eval Let_def operand_loop_eol operand_loop_more)

theorem oneOp_missing_operand_accepted_witness:
  "\<exists>st'. parseOneOperand [CHR 0x0A] \<lparr>ttype = ONE_OPERAND, tvalue = ''inc'' @ [NUL]\<rparr> \<lparr>codeImage = \<lambda>_. undefined, dataImage = \<lambda>_. undefined, labelTable = [], IC = 2, DC = 0\<rparr> = Inr (True, st') \<and> IC st' = 2"
  using oneOp_missing_operand_accepted [of "\<lparr>codeImage = \<lambda>_. undefined, dataImage = \<lambda>_. undefined, labelTable = [], IC = 2, DC = 0\<rparr>"] by (simp add: MAX_MEMORY_SPACE_def)

end
