(* ===== verification/Directives.thy ===== *)
theory Directives
  imports Labels Instructions
begin

unbundle bit_operations_syntax

text \<open>
  The directive handlers of \<^verbatim>\<open>src/directives.c\<close>: \<^verbatim>\<open>parseDirectiveData\<close>,
  \<^verbatim>\<open>parseDirectiveString\<close>, \<^verbatim>\<open>parseDirectiveExtEnt\<close> and the dispatcher
  \<^verbatim>\<open>parseDirective\<close>.  Like the instruction handlers they are functions of the rest
  of the line and the assembler state; the line number is an argument because the data
  words record it.
\<close>

section \<open>Definitions\<close>

text \<open>
  The loop of \<^verbatim>\<open>parseDirectiveData\<close> (lines 62 to 83), from the token in hand: a
  number writes the data word at \<open>DC\<close> and advances \<open>DC\<close>; the value written is
  \<^verbatim>\<open>token.type & 0xFFF\<close>; a comma is counted; any other token makes the handler
  return \<open>FALSE\<close>.  The bound is \<^verbatim>\<open>MAX_FILE_SIZE\<close>.  The result carries \<open>DC\<close>, the
  number count and the comma count.
\<close>

function data_loop ::
  "int \<Rightarrow> int \<Rightarrow> Token \<Rightarrow> char list \<Rightarrow> image \<Rightarrow> int \<Rightarrow> int \<Rightarrow> int
   \<Rightarrow> (loop_exit \<times> image \<times> int \<times> int \<times> int) cres" where
  "data_loop ic ln t line img dc nc cc =
     (if ttype t = END then Inr (Loop_done, img, dc, nc, cc)
      else if ttype t = NUMBER then
        cbind (stores [(dc, SetField DW_data (TokenType_val (ttype t) AND 0xFFF)), (dc, SetLine ln),
                       (dc, SetType DATA_WORD_TYPE)] img) (\<lambda>img'.
          if MAX_FILE_SIZE \<le> ic + (dc + 1) then Inr (Loop_done, img', dc + 1, nc + 1, cc)
          else cbind (getNextToken line) (\<lambda>(t', line').
            data_loop ic ln t' line' img' (dc + 1) (nc + 1) cc))
      else if ttype t = COMMA then
        (if MAX_FILE_SIZE \<le> ic + dc then Inr (Loop_done, img, dc, nc, cc + 1)
         else cbind (getNextToken line) (\<lambda>(t', line').
           data_loop ic ln t' line' img dc nc (cc + 1)))
      else Inr (Loop_return False, img, dc, nc, cc))"
  by pat_completeness auto
termination
  by (relation "measure (\<lambda>(ic, ln, t, line, img, dc, nc, cc).
        length line + (if ttype t = END then 0 else 1))")
     (auto dest!: getNextToken_measure)

declare data_loop.simps [simp del]

definition parseDirectiveData :: "char list \<Rightarrow> asm_state \<Rightarrow> int \<Rightarrow> (bool \<times> asm_state) cres" where
  "parseDirectiveData line st ln =
     cbind (getNextToken line) (\<lambda>(t, line').
       if MAX_FILE_SIZE \<le> IC st + DC st then Inr (False, st)
       else cbind (data_loop (IC st) ln t line' (dataImage st) (DC st) 0 0)
         (\<lambda>(ex, img, dc, nc, cc).
            let st' = st\<lparr>dataImage := img, DC := dc\<rparr> in
            case ex of
              Loop_return b \<Rightarrow> Inr (b, st')
            | Loop_done \<Rightarrow> Inr (nc = cc + 1, st')))"

text \<open>
  The loop of \<^verbatim>\<open>parseDirectiveString\<close> (lines 115 to 127) over the characters of
  the token string, writing each at \<open>DC + counter\<close>.
\<close>

fun string_loop ::
  "int \<Rightarrow> int \<Rightarrow> int \<Rightarrow> char list \<Rightarrow> image \<Rightarrow> int \<Rightarrow> (bool \<times> image \<times> int) cres" where
  "string_loop ic dc ln [] img counter = Inr (True, img, counter)"
| "string_loop ic dc ln (c # cs) img counter =
     (if ic + counter + dc < MAX_MEMORY_SPACE then
        cbind (stores [(dc + counter, SetField DW_data (int (of_char c) AND 0xFFF)),
                       (dc + counter, SetLine ln), (dc + counter, SetType DATA_WORD_TYPE)] img)
          (\<lambda>img'. string_loop ic dc ln cs img' (counter + 1))
      else Inr (False, img, counter))"

text \<open>
  \<^verbatim>\<open>parseDirectiveString\<close>.  The token argument is overwritten at once and is not
  part of the model.  After the check that the next token is \<open>END\<close>, the loop reads
  \<^verbatim>\<open>token.value.string\<close>, the string of that \<open>END\<close> token.  The terminating word
  gets its data and line number but no word type.
\<close>

definition parseDirectiveString :: "char list \<Rightarrow> asm_state \<Rightarrow> int \<Rightarrow> (bool \<times> asm_state) cres" where
  "parseDirectiveString line st ln =
     cbind (getNextToken line) (\<lambda>(t1, line1).
       if nth_nul (tvalue t1) 0 \<noteq> CHR ''\"''
          \<or> nth_nul (tvalue t1) (length (cstr (tvalue t1)) - 1) \<noteq> CHR ''\"'' then Inr (False, st)
       else cbind (getNextToken line1) (\<lambda>(t2, line2).
         if ttype t2 \<noteq> END then Inr (False, st)
         else cbind (string_loop (IC st) (DC st) ln (cstr (tvalue t2)) (dataImage st) 0)
           (\<lambda>(ok, img, counter).
              if \<not> ok then Inr (False, st\<lparr>dataImage := img\<rparr>)
              else if DC st + counter + IC st < MAX_MEMORY_SPACE then
                cbind (stores [(DC st + counter, SetField DW_data 0), (DC st + counter, SetLine ln)] img)
                  (\<lambda>img'. Inr (True, st\<lparr>dataImage := img', DC := DC st + (counter + 1)\<rparr>))
              else Inr (False, st\<lparr>dataImage := img\<rparr>))))"

text \<open>
  The loop of \<^verbatim>\<open>parseDirectiveExtEnt\<close> (lines 154 to 167): at most three tokens,
  the directive itself first; the second, if it is a label, goes to
  \<^verbatim>\<open>parseLabel\<close> (once for \<^verbatim>\<open>.entry\<close>, once more for \<^verbatim>\<open>.extern\<close>, both times
  with \<open>isEntry = TRUE\<close>).  \<open>nextTok\<close> is the indeterminate local of \<^verbatim>\<open>parseLabel\<close>.
  The result carries the last token, the cursor, the state, the token counter and
  \<^verbatim>\<open>isLable\<close>.
\<close>

function extent_loop ::
  "char list \<Rightarrow> asm_state \<Rightarrow> bool \<Rightarrow> bool \<Rightarrow> TokenType \<Rightarrow> Token \<Rightarrow> int \<Rightarrow> bool
   \<Rightarrow> (Token \<times> char list \<times> asm_state \<times> int \<times> bool) cres" where
  "extent_loop line st isExt isEnt nextTok t counter isLable =
     (if ttype t \<noteq> END \<and> counter \<le> 3 \<and> ttype t \<noteq> INVALID then
        cbind (if counter = 2 \<and> ttype t = LABEL then
                 cbind (if isEnt then parseLabel t line st False isExt True nextTok
                        else Inr (isLable, st, line)) (\<lambda>(l1, st1, line1).
                 if isExt then parseLabel t line1 st1 False isExt True nextTok
                 else Inr (l1, st1, line1))
               else Inr (isLable, st, line)) (\<lambda>(isLable', st', line').
        cbind (getNextToken line') (\<lambda>(t', line'').
          extent_loop line'' st' isExt isEnt nextTok t' (counter + 1) isLable'))
      else Inr (t, line, st, counter, isLable))"
  by pat_completeness auto
termination
  by (relation "measure (\<lambda>(line, st, isExt, isEnt, nextTok, t, counter, isLable). nat (4 - counter))")
     auto

declare extent_loop.simps [simp del]

definition parseDirectiveExtEnt ::
  "Token \<Rightarrow> char list \<Rightarrow> asm_state \<Rightarrow> bool \<Rightarrow> bool \<Rightarrow> TokenType \<Rightarrow> (bool \<times> asm_state) cres" where
  "parseDirectiveExtEnt t line st isExt isEnt nextTok =
     (if isExt \<and> isEnt then Inr (False, st)
      else cbind (extent_loop line st isExt isEnt nextTok t 1 False)
        (\<lambda>(t', line', st', counter, isLable).
           if ttype t' = INVALID then Inr (False, st')
           else if 3 < counter then Inr (False, st')
           else if \<not> isLable then Inr (False, st')
           else Inr (True, st')))"

text \<open>
  \<^verbatim>\<open>parseDirective\<close>: the \<^verbatim>\<open>strcmp\<close> chain on the directive name.
\<close>

definition parseDirective ::
  "Token \<Rightarrow> char list \<Rightarrow> asm_state \<Rightarrow> bool \<Rightarrow> bool \<Rightarrow> bool \<Rightarrow> TokenType \<Rightarrow> int
   \<Rightarrow> (bool \<times> asm_state) cres" where
  "parseDirective t line st isDat isExt isEnt nextTok ln =
     (let s = cstr (tvalue t) in
      if s = ''.data'' then parseDirectiveData line st ln
      else if s = ''.string'' then parseDirectiveString line st ln
      else if s = ''.entry'' then parseDirectiveExtEnt t line st isExt True nextTok
      else if s = ''.extern'' then parseDirectiveExtEnt t line st True isEnt nextTok
      else Inr (False, st))"

lemmas directives_eval [c_eval] =
  parseDirectiveData_def parseDirectiveString_def parseDirectiveExtEnt_def parseDirective_def

section \<open>Lemmas on the data directive\<close>

lemma data_word_store:
  assumes "stores [(dc, SetField DW_data v), (dc, SetLine ln), (dc, SetType DATA_WORD_TYPE)] img = Inr img'"
  shows "0 \<le> dc \<and> dc < MAX_MEMORY_SPACE \<and>
    img' = img(nat dc := (set_field DW_data v (img (nat dc)))\<lparr>line_number := ln, wordType := DATA_WORD_TYPE\<rparr>)"
  using assms by (auto simp: arr_upd_def split: if_splits)

lemma data_loop_Inr:
  "data_loop ic ln t line img dc nc cc = Inr (ex, img', dc', nc', cc') \<Longrightarrow>
   dc \<le> dc' \<and> dc' - dc = nc' - nc \<and> cc \<le> cc'
   \<and> (\<forall>k. int k < dc \<or> dc' \<le> int k \<longrightarrow> img' k = img k)
   \<and> (\<forall>k. dc \<le> int k \<and> int k < dc' \<longrightarrow> get_field DW_data (img' k) = 5
        \<and> wordType (img' k) = DATA_WORD_TYPE \<and> line_number (img' k) = ln)"
proof (induction ic ln t line img dc nc cc arbitrary: ex img' dc' nc' cc' rule: data_loop.induct)
  case (1 ic ln t line img dc nc cc)
  note eq = "1.prems" [unfolded data_loop.simps [of ic ln t line img dc nc cc]]
  consider (e) "ttype t = END" | (n) "ttype t = NUMBER" | (c) "ttype t = COMMA"
    | (o) "ttype t \<noteq> END" "ttype t \<noteq> NUMBER" "ttype t \<noteq> COMMA" by blast
  then show ?case
  proof cases
    case e
    with eq show ?thesis by auto
  next
    case o
    with eq show ?thesis by auto
  next
    case n
    with eq obtain img1 where
      st: "stores [(dc, SetField DW_data (TokenType_val (ttype t) AND 0xFFF)), (dc, SetLine ln),
                   (dc, SetType DATA_WORD_TYPE)] img = Inr img1" and
      rest: "(if MAX_FILE_SIZE \<le> ic + (dc + 1) then Inr (Loop_done, img1, dc + 1, nc + 1, cc)
              else cbind (getNextToken line) (\<lambda>(t', line').
                data_loop ic ln t' line' img1 (dc + 1) (nc + 1) cc)) = Inr (ex, img', dc', nc', cc')"
      by (auto simp: cbind_eq_Inr)
    from data_word_store [OF st] n have dc0: "0 \<le> dc" and
      img1: "img1 = img(nat dc := (set_field DW_data 5 (img (nat dc)))\<lparr>line_number := ln, wordType := DATA_WORD_TYPE\<rparr>)"
      by simp_all
    have good1: "get_field DW_data (img1 (nat dc)) = 5 \<and> wordType (img1 (nat dc)) = DATA_WORD_TYPE
        \<and> line_number (img1 (nat dc)) = ln"
      by (simp add: img1 get_set_field_same)
    show ?thesis
    proof (cases "MAX_FILE_SIZE \<le> ic + (dc + 1)")
      case True
      with rest have "ex = Loop_done" "img' = img1" "dc' = dc + 1" "nc' = nc + 1" "cc' = cc" by simp_all
      with good1 dc0 show ?thesis by (auto simp: img1)
    next
      case False
      with rest obtain t' line' where
        tok: "getNextToken line = Inr (t', line')" and
        rec: "data_loop ic ln t' line' img1 (dc + 1) (nc + 1) cc = Inr (ex, img', dc', nc', cc')"
        by (auto simp: cbind_eq_Inr)
      have ih: "dc + 1 \<le> dc' \<and> dc' - (dc + 1) = nc' - (nc + 1) \<and> cc \<le> cc'
        \<and> (\<forall>k. int k < dc + 1 \<or> dc' \<le> int k \<longrightarrow> img' k = img1 k)
        \<and> (\<forall>k. dc + 1 \<le> int k \<and> int k < dc' \<longrightarrow> get_field DW_data (img' k) = 5
             \<and> wordType (img' k) = DATA_WORD_TYPE \<and> line_number (img' k) = ln)"
        using "1.IH"(1) [OF _ n st False tok refl rec] n by simp
      have fr: "img' k = img k" if "int k < dc \<or> dc' \<le> int k" for k
        using ih dc0 that by (auto simp: img1)
      have gd: "get_field DW_data (img' k) = 5 \<and> wordType (img' k) = DATA_WORD_TYPE
          \<and> line_number (img' k) = ln" if k: "dc \<le> int k \<and> int k < dc'" for k
      proof (cases "int k = dc")
        case True
        with ih good1 dc0 show ?thesis by auto
      next
        case False
        with ih k show ?thesis by auto
      qed
      from ih fr gd show ?thesis by auto
    qed
  next
    case c
    with eq have rest: "(if MAX_FILE_SIZE \<le> ic + dc then Inr (Loop_done, img, dc, nc, cc + 1)
         else cbind (getNextToken line) (\<lambda>(t', line').
           data_loop ic ln t' line' img dc nc (cc + 1))) = Inr (ex, img', dc', nc', cc')"
      by simp
    show ?thesis
    proof (cases "MAX_FILE_SIZE \<le> ic + dc")
      case True
      with rest show ?thesis by auto
    next
      case False
      with rest obtain t' line' where
        tok: "getNextToken line = Inr (t', line')" and
        rec: "data_loop ic ln t' line' img dc nc (cc + 1) = Inr (ex, img', dc', nc', cc')"
        by (auto simp: cbind_eq_Inr)
      have ih: "dc \<le> dc' \<and> dc' - dc = nc' - nc \<and> cc + 1 \<le> cc'
        \<and> (\<forall>k. int k < dc \<or> dc' \<le> int k \<longrightarrow> img' k = img k)
        \<and> (\<forall>k. dc \<le> int k \<and> int k < dc' \<longrightarrow> get_field DW_data (img' k) = 5
             \<and> wordType (img' k) = DATA_WORD_TYPE \<and> line_number (img' k) = ln)"
        using "1.IH"(2) [OF _ _ c False tok refl rec] c by simp
      then show ?thesis by auto
    qed
  qed
qed

lemma parseDirectiveData_cases:
  assumes "parseDirectiveData line st ln = Inr (b, st')"
  shows "st' = st \<or>
    (\<exists>t line' ex img dc nc cc. getNextToken line = Inr (t, line') \<and>
       data_loop (IC st) ln t line' (dataImage st) (DC st) 0 0 = Inr (ex, img, dc, nc, cc) \<and>
       st' = st\<lparr>dataImage := img, DC := dc\<rparr>)"
proof -
  from assms obtain t line' where
    tok: "getNextToken line = Inr (t, line')" and
    r: "(if MAX_FILE_SIZE \<le> IC st + DC st then Inr (False, st)
       else cbind (data_loop (IC st) ln t line' (dataImage st) (DC st) 0 0)
         (\<lambda>(ex, img, dc, nc, cc).
            let st' = st\<lparr>dataImage := img, DC := dc\<rparr> in
            case ex of Loop_return b \<Rightarrow> Inr (b, st') | Loop_done \<Rightarrow> Inr (nc = cc + 1, st')))
       = Inr (b, st')"
    by (auto simp: parseDirectiveData_def cbind_eq_Inr)
  show ?thesis
  proof (cases "MAX_FILE_SIZE \<le> IC st + DC st")
    case True
    with r show ?thesis by simp
  next
    case False
    show ?thesis
    proof (cases "data_loop (IC st) ln t line' (dataImage st) (DC st) 0 0")
      case (Inl e)
      with r False show ?thesis by simp
    next
      case (Inr x)
      obtain ex img dc nc cc where x: "x = (ex, img, dc, nc, cc)" by (cases x) auto
      from r False Inr x have "st' = st\<lparr>dataImage := img, DC := dc\<rparr>"
        by (cases ex) (auto simp: Let_def)
      with tok Inr x show ?thesis by blast
    qed
  qed
qed

section \<open>Lemmas on the string directive\<close>

lemma getNextToken_END_value:
  "getNextToken l = Inr (t, r) \<Longrightarrow> ttype t = END \<Longrightarrow> tvalue t = ''end of line'' @ [NUL]"
  by (auto simp: getNextToken_def Let_def split: if_splits dest: word_token_shape)

lemma take_bit_of_char: "take_bit 12 (of_char c :: nat) = of_char c"
proof -
  have "of_char c < (4096::nat)" using nat_of_char_less_256 [of c] by linarith
  then show ?thesis by (simp add: take_bit_nat_eq_self_iff)
qed

lemma char_data_field: "take_bit 12 (word_of_int (int (of_char c) AND 0xFFF) :: 32 word) = of_nat (of_char c)"
proof -
  have "take_bit 12 (int (of_char c)) = int (of_char c)" by (simp add: take_bit_of_nat take_bit_of_char)
  then have "int (of_char c) AND 0xFFF = int (of_char c)" by (simp add: take_bit_eq_mask mask_numeral)
  then show ?thesis by (simp add: take_bit_of_nat take_bit_of_char)
qed

lemma string_loop_True:
  "string_loop ic dc ln cs img counter = Inr (True, img', counter') \<Longrightarrow>
   counter' = counter + int (length cs) \<and> (cs \<noteq> [] \<longrightarrow> 0 \<le> dc + counter)
   \<and> (\<forall>i < length cs. get_field DW_data (img' (nat (dc + counter) + i)) = of_nat (of_char (cs ! i))
        \<and> wordType (img' (nat (dc + counter) + i)) = DATA_WORD_TYPE
        \<and> line_number (img' (nat (dc + counter) + i)) = ln)
   \<and> (\<forall>j. int j < dc + counter \<or> dc + counter' \<le> int j \<longrightarrow> img' j = img j)"
proof (induction cs arbitrary: img counter)
  case Nil
  then show ?case by auto
next
  case (Cons c cs)
  from Cons.prems obtain img1 where
    b: "ic + counter + dc < MAX_MEMORY_SPACE" and
    st: "stores [(dc + counter, SetField DW_data (int (of_char c) AND 0xFFF)),
                 (dc + counter, SetLine ln), (dc + counter, SetType DATA_WORD_TYPE)] img = Inr img1" and
    rec: "string_loop ic dc ln cs img1 (counter + 1) = Inr (True, img', counter')"
    by (auto simp: cbind_eq_Inr split: if_splits simp del: stores.simps)
  from data_word_store [OF st] have nn: "0 \<le> dc + counter" and
    img1: "img1 = img(nat (dc + counter) := (set_field DW_data (int (of_char c) AND 0xFFF)
              (img (nat (dc + counter))))\<lparr>line_number := ln, wordType := DATA_WORD_TYPE\<rparr>)"
    by simp_all
  have ih: "counter' = counter + 1 + int (length cs)
   \<and> (\<forall>i < length cs. get_field DW_data (img' (nat (dc + (counter + 1)) + i))
          = of_nat (of_char (cs ! i))
        \<and> wordType (img' (nat (dc + (counter + 1)) + i)) = DATA_WORD_TYPE
        \<and> line_number (img' (nat (dc + (counter + 1)) + i)) = ln)
   \<and> (\<forall>j. int j < dc + (counter + 1) \<or> dc + counter' \<le> int j \<longrightarrow> img' j = img1 j)"
    using Cons.IH [OF rec] by blast
  have sh: "nat (dc + (counter + 1)) + i = nat (dc + counter) + Suc i" for i
    using nn by simp
  have first: "img' (nat (dc + counter)) = img1 (nat (dc + counter))"
    using ih nn by simp
  have cell: "\<forall>i < length (c # cs).
        get_field DW_data (img' (nat (dc + counter) + i)) = of_nat (of_char ((c # cs) ! i))
        \<and> wordType (img' (nat (dc + counter) + i)) = DATA_WORD_TYPE
        \<and> line_number (img' (nat (dc + counter) + i)) = ln"
  proof (intro allI impI)
    fix i assume "i < length (c # cs)"
    then show "get_field DW_data (img' (nat (dc + counter) + i)) = of_nat (of_char ((c # cs) ! i))
        \<and> wordType (img' (nat (dc + counter) + i)) = DATA_WORD_TYPE
        \<and> line_number (img' (nat (dc + counter) + i)) = ln"
    proof (cases i)
      case 0
      then show ?thesis using first by (simp add: img1 get_set_field_same char_data_field)
    next
      case (Suc i')
      with \<open>i < length (c # cs)\<close> have "i' < length cs" by simp
      with ih sh [of i'] Suc show ?thesis by auto
    qed
  qed
  have frame: "img' j = img j" if "int j < dc + counter \<or> dc + counter' \<le> int j" for j
  proof -
    have "img' j = img1 j" using ih that by auto
    moreover have "counter' = counter + 1 + int (length cs)" using ih by blast
    with that have "int j \<noteq> dc + counter" by auto
    with nn have "j \<noteq> nat (dc + counter)" by auto
    ultimately show ?thesis by (simp add: img1)
  qed
  from ih nn cell frame show ?case by auto
qed

lemma string_terminator_store:
  "stores [(i, SetField DW_data 0), (i, SetLine ln)] img = Inr img' \<Longrightarrow>
   0 \<le> i \<and> img' = img(nat i := (set_field DW_data 0 (img (nat i)))\<lparr>line_number := ln\<rparr>)"
  by (auto simp: arr_upd_def split: if_splits)

lemma parseDirectiveString_True:
  assumes "parseDirectiveString line st ln = Inr (True, st')"
  shows "\<exists>img counter. string_loop (IC st) (DC st) ln ''end of line'' (dataImage st) 0 = Inr (True, img, counter)
    \<and> stores [(DC st + counter, SetField DW_data 0), (DC st + counter, SetLine ln)] img = Inr (dataImage st')
    \<and> st' = st\<lparr>dataImage := dataImage st', DC := DC st + (counter + 1)\<rparr>"
proof -
  from assms obtain line1 t2 line2 img counter img' where
    t2: "getNextToken line1 = Inr (t2, line2)" "ttype t2 = END" and
    lp: "string_loop (IC st) (DC st) ln (cstr (tvalue t2)) (dataImage st) 0 = Inr (True, img, counter)" and
    fin: "stores [(DC st + counter, SetField DW_data 0), (DC st + counter, SetLine ln)] img = Inr img'" and
    st': "st' = st\<lparr>dataImage := img', DC := DC st + (counter + 1)\<rparr>"
    by (auto simp: parseDirectiveString_def cbind_eq_Inr split: if_splits simp del: stores.simps)
  have "cstr (tvalue t2) = ''end of line''"
    using getNextToken_END_value [OF t2] by (simp add: cstr_def)
  with lp fin st' show ?thesis by auto
qed

section \<open>Lemmas on .entry and .extern\<close>

lemma extent_loop_state:
  "extent_loop line st isExt isEnt nextTok t counter isLable = Inr (t', line', st', counter', isLable')
   \<Longrightarrow> st' = st"
proof (induction line st isExt isEnt nextTok t counter isLable
    arbitrary: t' line' st' counter' isLable' rule: extent_loop.induct)
  case (1 line st isExt isEnt nextTok t counter isLable)
  note eq = "1.prems" [unfolded extent_loop.simps [of line st isExt isEnt nextTok t counter isLable]]
  show ?case
  proof (cases "ttype t \<noteq> END \<and> counter \<le> 3 \<and> ttype t \<noteq> INVALID")
    case False
    with eq show ?thesis by simp
  next
    case go: True
    let ?lab = "if counter = 2 \<and> ttype t = LABEL then
                 cbind (if isEnt then parseLabel t line st False isExt True nextTok
                        else Inr (isLable, st, line)) (\<lambda>(l1, st1, line1).
                 if isExt then parseLabel t line1 st1 False isExt True nextTok
                 else Inr (l1, st1, line1))
               else Inr (isLable, st, line)"
    from go eq obtain l2 st2 line2 t3 line3 where
      lab: "?lab = Inr (l2, st2, line2)" and
      tok: "getNextToken line2 = Inr (t3, line3)" and
      rec: "extent_loop line3 st2 isExt isEnt nextTok t3 (counter + 1) l2 = Inr (t', line', st', counter', isLable')"
      by (auto simp: cbind_eq_Inr)
    have "st2 = st"
      using lab by (auto simp: cbind_eq_Inr split: if_splits dest!: parseLabel_state)
    moreover have "st' = st2"
      using "1.IH" [OF go lab refl refl tok refl rec] by simp
    ultimately show ?thesis by simp
  qed
qed

lemma parseLabel_label_True:
  "ttype t = LABEL \<Longrightarrow> parseLabel t line st isDat isExt isEnt nextTok = Inr (b, st', line') \<Longrightarrow>
   \<not> isValidLabel (cstr (tvalue t)) LABEL \<and> b \<and> line' = line"
  unfolding parseLabel_def createLabel_def ptr_add_colon by (auto simp: cbind_eq_Inr split: if_splits)

lemma extent_loop_label:
  "extent_loop line st isExt isEnt nextTok t counter isLable = Inr (t', line', st', counter', isLable')
   \<Longrightarrow> isLable' \<Longrightarrow> \<not> isLable \<Longrightarrow> 1 \<le> counter \<Longrightarrow>
   \<exists>tl. ttype tl = LABEL \<and> \<not> isValidLabel (cstr (tvalue tl)) LABEL
     \<and> ((counter = 2 \<and> tl = t) \<or> (counter = 1 \<and> (\<exists>l1. getNextToken line = Inr (tl, l1))))"
proof (induction line st isExt isEnt nextTok t counter isLable
    arbitrary: t' line' st' counter' isLable' rule: extent_loop.induct)
  case (1 line st isExt isEnt nextTok t counter isLable)
  note eq = "1.prems"(1) [unfolded extent_loop.simps [of line st isExt isEnt nextTok t counter isLable]]
  show ?case
  proof (cases "ttype t \<noteq> END \<and> counter \<le> 3 \<and> ttype t \<noteq> INVALID")
    case False
    with eq "1.prems"(2,3) show ?thesis by simp
  next
    case go: True
    let ?lab = "if counter = 2 \<and> ttype t = LABEL then
                 cbind (if isEnt then parseLabel t line st False isExt True nextTok
                        else Inr (isLable, st, line)) (\<lambda>(l1, st1, line1).
                 if isExt then parseLabel t line1 st1 False isExt True nextTok
                 else Inr (l1, st1, line1))
               else Inr (isLable, st, line)"
    from go eq obtain l2 st2 line2 t3 line3 where
      lab: "?lab = Inr (l2, st2, line2)" and
      tok: "getNextToken line2 = Inr (t3, line3)" and
      rec: "extent_loop line3 st2 isExt isEnt nextTok t3 (counter + 1) l2 = Inr (t', line', st', counter', isLable')"
      by (auto simp: cbind_eq_Inr)
    show ?thesis
    proof (cases "counter = 2 \<and> ttype t = LABEL")
      case lab2: True
      show ?thesis
      proof (cases l2)
        case True
        with lab lab2 "1.prems"(3) have "\<not> isValidLabel (cstr (tvalue t)) LABEL"
          by (auto simp: cbind_eq_Inr split: if_splits dest: parseLabel_label_True)
        with lab2 show ?thesis by blast
      next
        case False
        have "\<exists>tl. ttype tl = LABEL \<and> \<not> isValidLabel (cstr (tvalue tl)) LABEL
           \<and> ((counter + 1 = 2 \<and> tl = t3) \<or> (counter + 1 = 1 \<and> (\<exists>l1. getNextToken line3 = Inr (tl, l1))))"
          using "1.IH" [OF go lab refl refl tok refl rec "1.prems"(2) False] "1.prems"(4) by simp
        with lab2 show ?thesis by simp
      qed
    next
      case other: False
      with lab have l2: "l2 = isLable" "line2 = line" by simp_all
      have "\<exists>tl. ttype tl = LABEL \<and> \<not> isValidLabel (cstr (tvalue tl)) LABEL
         \<and> ((counter + 1 = 2 \<and> tl = t3) \<or> (counter + 1 = 1 \<and> (\<exists>l1. getNextToken line3 = Inr (tl, l1))))"
        using "1.IH" [OF go lab refl refl tok refl rec "1.prems"(2)] l2 "1.prems"(3,4) by simp
      then show ?thesis using tok l2 "1.prems"(4) by auto
    qed
  qed
qed

section \<open>What a directive changes\<close>

lemma parseDirectiveString_mono:
  "parseDirectiveString line st ln = Inr (b, st') \<Longrightarrow>
   IC st' = IC st \<and> DC st \<le> DC st' \<and> codeImage st' = codeImage st \<and> labelTable st' = labelTable st"
  by (auto simp: parseDirectiveString_def cbind_eq_Inr simp del: stores.simps string_loop.simps
      split: if_splits dest!: string_loop_True)

lemma parseDirectiveData_mono:
  "parseDirectiveData line st ln = Inr (b, st') \<Longrightarrow>
   IC st' = IC st \<and> DC st \<le> DC st' \<and> codeImage st' = codeImage st \<and> labelTable st' = labelTable st"
  by (drule parseDirectiveData_cases) (auto dest!: data_loop_Inr)

lemma parseDirectiveExtEnt_mono:
  "parseDirectiveExtEnt t line st isExt isEnt nextTok = Inr (b, st') \<Longrightarrow> st' = st"
  by (auto simp: parseDirectiveExtEnt_def cbind_eq_Inr split: if_splits dest!: extent_loop_state)

lemma parseDirective_mono:
  "parseDirective t line st isDat isExt isEnt nextTok ln = Inr (b, st') \<Longrightarrow>
   IC st' = IC st \<and> DC st \<le> DC st' \<and> codeImage st' = codeImage st \<and> labelTable st' = labelTable st"
  by (auto simp: parseDirective_def Let_def split: if_splits
      dest!: parseDirectiveString_mono parseDirectiveData_mono parseDirectiveExtEnt_mono)

section \<open>Properties of the directive handlers\<close>

text \<open>
  C14.  Every data word that \<^verbatim>\<open>parseDirectiveData\<close> writes, from the old \<open>DC\<close> up to
  the new one, is a data word of the line, and its 12-bit value is 5, the value of the
  enumerator \<open>NUMBER\<close> (\<^verbatim>\<open>token.type & 0xFFF\<close>), whatever number the line holds.
\<close>

theorem parseDirectiveData_stores_type_code:
  assumes "parseDirectiveData line st ln = Inr (b, st')"
    and "DC st \<le> int k" and "int k < DC st'"
  shows "get_field DW_data (dataImage st' k) = 5 \<and> wordType (dataImage st' k) = DATA_WORD_TYPE
    \<and> line_number (dataImage st' k) = ln"
  using parseDirectiveData_cases [OF assms(1)]
proof
  assume "st' = st"
  with assms(2,3) show ?thesis by simp
next
  assume "\<exists>t line' ex img dc nc cc. getNextToken line = Inr (t, line') \<and>
       data_loop (IC st) ln t line' (dataImage st) (DC st) 0 0 = Inr (ex, img, dc, nc, cc) \<and>
       st' = st\<lparr>dataImage := img, DC := dc\<rparr>"
  then obtain t line' ex img dc nc cc where
    lp: "data_loop (IC st) ln t line' (dataImage st) (DC st) 0 0 = Inr (ex, img, dc, nc, cc)" and
    st': "st' = st\<lparr>dataImage := img, DC := dc\<rparr>" by blast
  from data_loop_Inr [OF lp] assms(2,3) st' show ?thesis by auto
qed

theorem parseDirectiveData_stores_type_code_witness:
  "\<exists>st'. parseDirectiveData ('' 7,8'' @ [CHR 0x0A]) \<lparr>codeImage = \<lambda>_. undefined, dataImage = \<lambda>_. undefined, labelTable = [], IC = 0, DC = 0\<rparr> 1 = Inr (True, st')
     \<and> DC st' = 2 \<and> get_field DW_data (dataImage st' 0) = 5 \<and> get_field DW_data (dataImage st' 1) = 5"
proof -
  have "\<exists>st'. parseDirectiveData ('' 7,8'' @ [CHR 0x0A]) \<lparr>codeImage = \<lambda>_. undefined, dataImage = \<lambda>_. undefined, labelTable = [], IC = 0, DC = 0\<rparr> 1 = Inr (True, st') \<and> DC st' = 2"
    by (simp add: c_eval data_loop.simps)
  then obtain st' where r: "parseDirectiveData ('' 7,8'' @ [CHR 0x0A]) \<lparr>codeImage = \<lambda>_. undefined, dataImage = \<lambda>_. undefined, labelTable = [], IC = 0, DC = 0\<rparr> 1 = Inr (True, st')"
    and d: "DC st' = 2" by blast
  have "get_field DW_data (dataImage st' 0) = 5"
    using parseDirectiveData_stores_type_code [OF r, of 0] d by simp
  moreover have "get_field DW_data (dataImage st' 1) = 5"
    using parseDirectiveData_stores_type_code [OF r, of 1] d by simp
  ultimately show ?thesis using r d by blast
qed

text \<open>
  C15.  \<^verbatim>\<open>parseDirectiveData\<close>, whether it accepts the line or not, leaves \<open>IC\<close>, the
  code image and the label table alone, never lowers \<open>DC\<close>, and changes no data word
  outside the range from the old to the new \<open>DC\<close>: on a rejected line the words it
  wrote stay counted in \<open>DC\<close>.
\<close>

theorem parseDirectiveData_frame:
  assumes "parseDirectiveData line st ln = Inr (b, st')"
  shows "DC st \<le> DC st' \<and> IC st' = IC st \<and> codeImage st' = codeImage st
    \<and> labelTable st' = labelTable st
    \<and> (\<forall>k. int k < DC st \<or> DC st' \<le> int k \<longrightarrow> dataImage st' k = dataImage st k)"
  using parseDirectiveData_cases [OF assms]
proof
  assume "st' = st"
  then show ?thesis by simp
next
  assume "\<exists>t line' ex img dc nc cc. getNextToken line = Inr (t, line') \<and>
       data_loop (IC st) ln t line' (dataImage st) (DC st) 0 0 = Inr (ex, img, dc, nc, cc) \<and>
       st' = st\<lparr>dataImage := img, DC := dc\<rparr>"
  then obtain t line' ex img dc nc cc where
    lp: "data_loop (IC st) ln t line' (dataImage st) (DC st) 0 0 = Inr (ex, img, dc, nc, cc)" and
    st': "st' = st\<lparr>dataImage := img, DC := dc\<rparr>" by blast
  from data_loop_Inr [OF lp] st' show ?thesis by auto
qed

theorem parseDirectiveData_frame_witness:
  "\<exists>st'. parseDirectiveData ('' 1,,2'' @ [CHR 0x0A]) \<lparr>codeImage = \<lambda>_. undefined, dataImage = \<lambda>_. undefined, labelTable = [], IC = 0, DC = 0\<rparr> 1 = Inr (False, st')
     \<and> DC st' = 2 \<and> IC st' = 0"
proof -
  have "\<exists>st'. parseDirectiveData ('' 1,,2'' @ [CHR 0x0A]) \<lparr>codeImage = \<lambda>_. undefined, dataImage = \<lambda>_. undefined, labelTable = [], IC = 0, DC = 0\<rparr> 1 = Inr (False, st') \<and> DC st' = 2"
    by (simp add: c_eval data_loop.simps)
  then obtain st' where r: "parseDirectiveData ('' 1,,2'' @ [CHR 0x0A]) \<lparr>codeImage = \<lambda>_. undefined, dataImage = \<lambda>_. undefined, labelTable = [], IC = 0, DC = 0\<rparr> 1 = Inr (False, st')"
    and d: "DC st' = 2" by blast
  from parseDirectiveData_frame [OF r] r d show ?thesis by auto
qed

text \<open>
  C16.  When \<^verbatim>\<open>parseDirectiveString\<close> accepts a line, it has stored twelve words
  whatever the string: the characters of \<open>end of line\<close>, the text of the \<open>END\<close> token
  it read last, then a 0, and \<open>DC\<close> has advanced by 12.
\<close>

theorem parseDirectiveString_stores_end_of_line:
  assumes "parseDirectiveString line st ln = Inr (True, st')"
  shows "DC st' = DC st + 12 \<and> 0 \<le> DC st
    \<and> (\<forall>k < 12. get_field DW_data (dataImage st' (nat (DC st) + k))
      = of_nat (of_char ((''end of line'' @ [NUL]) ! k)))"
proof -
  from parseDirectiveString_True [OF assms] obtain img counter where
    lp: "string_loop (IC st) (DC st) ln ''end of line'' (dataImage st) 0 = Inr (True, img, counter)" and
    fin: "stores [(DC st + counter, SetField DW_data 0), (DC st + counter, SetLine ln)] img = Inr (dataImage st')" and
    st': "st' = st\<lparr>dataImage := dataImage st', DC := DC st + (counter + 1)\<rparr>"
    by blast
  note sl = string_loop_True [OF lp]
  have c: "counter = 11" using sl by simp
  from string_terminator_store [OF fin] c have nn: "0 \<le> DC st + 11" and
    img': "dataImage st' = img(nat (DC st + 11) := (set_field DW_data 0 (img (nat (DC st + 11))))\<lparr>line_number := ln\<rparr>)"
    by simp_all
  have d0: "0 \<le> DC st" using sl by simp
  have cells: "get_field DW_data (img (nat (DC st) + i)) = of_nat (of_char (''end of line'' ! i))"
    if "i < 11" for i
    using sl that by simp
  have each: "get_field DW_data (dataImage st' (nat (DC st) + i))
      = of_nat (of_char ((''end of line'' @ [NUL]) ! i))" if "i < 12" for i
  proof (cases "i = 11")
    case True
    have "nat (DC st + 11) = nat (DC st) + 11" using d0 by simp
    with True show ?thesis by (simp add: img' get_set_field_same)
  next
    case False
    with that have "i < 11" by simp
    have ne: "nat (DC st) + i \<noteq> nat (DC st + 11)" using d0 \<open>i < 11\<close> by simp
    have ea: "(''end of line'' @ [NUL]) ! i = ''end of line'' ! i"
      using \<open>i < 11\<close> by (subst nth_append) simp
    show ?thesis unfolding img' ea using cells [OF \<open>i < 11\<close>] ne by simp
  qed
  have "DC st' = DC (st\<lparr>dataImage := dataImage st', DC := DC st + (counter + 1)\<rparr>)"
    using st' by (rule arg_cong)
  with d0 c each show ?thesis by simp
qed

theorem parseDirectiveString_stores_end_of_line_witness:
  "\<exists>st'. parseDirectiveString ('' \"abc\"'' @ [CHR 0x0A]) \<lparr>codeImage = \<lambda>_. undefined, dataImage = \<lambda>_. undefined, labelTable = [], IC = 0, DC = 0\<rparr> 1 = Inr (True, st')
     \<and> DC st' = 12 \<and> get_field DW_data (dataImage st' 0) = 101"
proof -
  have "\<exists>st'. parseDirectiveString ('' \"abc\"'' @ [CHR 0x0A]) \<lparr>codeImage = \<lambda>_. undefined, dataImage = \<lambda>_. undefined, labelTable = [], IC = 0, DC = 0\<rparr> 1 = Inr (True, st')"
    by (simp add: c_eval)
  then obtain st' where r: "parseDirectiveString ('' \"abc\"'' @ [CHR 0x0A]) \<lparr>codeImage = \<lambda>_. undefined, dataImage = \<lambda>_. undefined, labelTable = [], IC = 0, DC = 0\<rparr> 1 = Inr (True, st')" ..
  from parseDirectiveString_stores_end_of_line [OF r] have
    "DC st' = 12" and "get_field DW_data (dataImage st' (nat 0 + 0)) = of_nat (of_char ((''end of line'' @ [NUL]) ! 0))"
    by simp_all
  with r show ?thesis by simp
qed

text \<open>
  C17.  \<^verbatim>\<open>parseDirectiveExtEnt\<close> accepts a line only when the token after the
  directive is a label that \<^verbatim>\<open>isValidLabel\<close> rejects: a well-formed name reaches
  \<^verbatim>\<open>createLabel\<close>, an ill-formed one makes \<^verbatim>\<open>parseLabel\<close> return \<open>TRUE\<close>.
\<close>

theorem parseDirectiveExtEnt_accepts_only_invalid:
  assumes "parseDirectiveExtEnt t line st isExt isEnt nextTok = Inr (True, st')"
  shows "\<exists>tl l1. getNextToken line = Inr (tl, l1) \<and> ttype tl = LABEL
    \<and> \<not> isValidLabel (cstr (tvalue tl)) LABEL"
proof -
  from assms obtain t' line' st'' counter' where
    lp: "extent_loop line st isExt isEnt nextTok t 1 False = Inr (t', line', st'', counter', True)"
    by (auto simp: parseDirectiveExtEnt_def cbind_eq_Inr split: if_splits)
  from extent_loop_label [OF lp] show ?thesis by auto
qed

theorem parseDirectiveExtEnt_accepts_only_invalid_witness:
  "parseDirectiveExtEnt \<lparr>ttype = DIRECTIVE, tvalue = ''.entry'' @ [NUL]\<rparr> ('' ab!c'' @ [CHR 0x0A]) \<lparr>codeImage = \<lambda>_. undefined, dataImage = \<lambda>_. undefined, labelTable = [], IC = 0, DC = 0\<rparr>
      False True COMMA = Inr (True, \<lparr>codeImage = \<lambda>_. undefined, dataImage = \<lambda>_. undefined, labelTable = [], IC = 0, DC = 0\<rparr>)
   \<and> (\<exists>tl l1. getNextToken ('' ab!c'' @ [CHR 0x0A]) = Inr (tl, l1) \<and> ttype tl = LABEL
        \<and> \<not> isValidLabel (cstr (tvalue tl)) LABEL)"
proof -
  have r: "parseDirectiveExtEnt \<lparr>ttype = DIRECTIVE, tvalue = ''.entry'' @ [NUL]\<rparr> ('' ab!c'' @ [CHR 0x0A]) \<lparr>codeImage = \<lambda>_. undefined, dataImage = \<lambda>_. undefined, labelTable = [], IC = 0, DC = 0\<rparr>
      False True COMMA = Inr (True, \<lparr>codeImage = \<lambda>_. undefined, dataImage = \<lambda>_. undefined, labelTable = [], IC = 0, DC = 0\<rparr>)"
    by (simp add: c_eval extent_loop.simps)
  from parseDirectiveExtEnt_accepts_only_invalid [OF r] r show ?thesis by blast
qed

text \<open>
  C18.  In every state, a \<^verbatim>\<open>.entry\<close> directive whose first operand is a label
  that \<^verbatim>\<open>isValidLabel\<close> accepts is undefined behaviour: \<^verbatim>\<open>extent_loop\<close> hands the
  label to \<^verbatim>\<open>parseLabel\<close>, which calls \<^verbatim>\<open>createLabel\<close>, and that computes
  \<^verbatim>\<open>name + ':'\<close> past the end of the name.
\<close>

theorem entry_label_UB:
  assumes "ttype t = DIRECTIVE" and "cstr (tvalue t) = ''.entry''"
    and "getNextToken line = Inr (t2, rest)" and "ttype t2 = LABEL"
    and "isValidLabel (cstr (tvalue t2)) LABEL"
  shows "parseDirective t line st isDat False isEnt nextTok ln = Inl Undefined_behaviour"
proof -
  have "extent_loop rest st False True nextTok t2 2 False = Inl Undefined_behaviour"
    using assms(4,5) by (subst extent_loop.simps) (simp add: parseLabel_def createLabel_def ptr_add_def MAX_LABEL_LENGTH_def)
  then have "extent_loop line st False True nextTok t 1 False = Inl Undefined_behaviour"
    using assms(1,3) by (subst extent_loop.simps) simp
  with assms(2) show ?thesis by (simp add: parseDirective_def parseDirectiveExtEnt_def)
qed

theorem entry_label_UB_witness:
  "parseDirective \<lparr>ttype = DIRECTIVE, tvalue = ''.entry'' @ [NUL]\<rparr> ('' LOOP'' @ [CHR 0x0A])
     \<lparr>codeImage = \<lambda>_. undefined, dataImage = \<lambda>_. undefined, labelTable = [], IC = 0, DC = 0\<rparr>
     False False False COMMA 1 = Inl Undefined_behaviour"
proof -
  have "\<exists>t2 rest. getNextToken ('' LOOP'' @ [CHR 0x0A]) = Inr (t2, rest) \<and> ttype t2 = LABEL
          \<and> isValidLabel (cstr (tvalue t2)) LABEL"
    by (simp add: c_eval)
  then obtain t2 rest where "getNextToken ('' LOOP'' @ [CHR 0x0A]) = Inr (t2, rest)" "ttype t2 = LABEL"
      "isValidLabel (cstr (tvalue t2)) LABEL" by blast
  from entry_label_UB [OF _ _ this] show ?thesis by (simp add: cstr_def)
qed

end
