(* ===== verification/Serializer.thy ===== *)
theory Serializer
  imports Labels
begin

unbundle bit_operations_syntax

text \<open>
  The serializer of \<^verbatim>\<open>src/writeFiles.c\<close>: the packing of a machine word into its
  12-bit value (\<^verbatim>\<open>convertToBinary\<close>), the two-character base64 code of a value
  (\<^verbatim>\<open>binaryToBase64\<close>), the twelve binary digits printed for it
  (\<^verbatim>\<open>printBinaryRepresentation\<close>), the four loops of \<^verbatim>\<open>convertArrays\<close> over the
  images, the label files (\<^verbatim>\<open>writeLabelFiles\<close>), the output file names
  (\<^verbatim>\<open>generateOutputFileNames\<close>) and \<^verbatim>\<open>writeFiles\<close>, which writes the three
  output files.  Text written to a stream is a \<open>char list\<close>; \<^verbatim>\<open>%d\<close> is
  \<open>show_int\<close>.  The arrays \<^verbatim>\<open>main\<close> passes in (\<^verbatim>\<open>codeImageBinary\<close>,
  \<^verbatim>\<open>codeImage64\<close>, ...) are functions from indices, of \<^verbatim>\<open>MAX_MEMORY_SPACE\<close>
  elements each; their initial content is arbitrary.
\<close>

section \<open>Formatted output\<close>

text \<open>\<^verbatim>\<open>printf("%d", n)\<close>: the decimal digits, with a minus sign when negative.\<close>

fun show_nat :: "nat \<Rightarrow> char list" where
  "show_nat n = (if n < 10 then [char_of (48 + n)]
                 else show_nat (n div 10) @ [char_of (48 + n mod 10)])"

declare show_nat.simps [simp del]

definition show_int :: "int \<Rightarrow> char list" where
  "show_int i = (if i < 0 then CHR ''-'' # show_nat (nat (- i)) else show_nat (nat i))"

text \<open>
  A \<^verbatim>\<open>%s\<close> argument that is an array of \<open>n\<close> characters read from index \<open>i\<close>:
  the characters up to the first NUL, undefined behaviour when the array has none.
\<close>

function read_cstr :: "(nat \<Rightarrow> char) \<Rightarrow> nat \<Rightarrow> nat \<Rightarrow> char list cres" where
  "read_cstr a n i =
     (if n \<le> i then Inl Undefined_behaviour
      else if a i = NUL then Inr []
      else cbind (read_cstr a n (Suc i)) (\<lambda>s. Inr (a i # s)))"
  by pat_completeness auto
termination by (relation "measure (\<lambda>(a, n, i). n - i)") auto

declare read_cstr.simps [simp del]

text \<open>
  The name of a label stored in a machine word, a \<^verbatim>\<open>char[MAX_LABEL_LENGTH + 1]\<close>
  passed to \<^verbatim>\<open>strcmp\<close> or \<^verbatim>\<open>%s\<close>: defined when a NUL ends it inside the array.
\<close>

definition label_str :: "char list \<Rightarrow> char list cres" where
  "label_str s = (if NUL \<in> set (take (MAX_LABEL_LENGTH + 1) s) then Inr (cstr s)
                  else Inl Undefined_behaviour)"

section \<open>Words\<close>

text \<open>
  The 12-bit value of each kind of word, as the \<^verbatim>\<open>switch\<close> of
  \<^verbatim>\<open>convertToBinary\<close> computes it from the bit-fields (each promoted to \<open>int\<close>,
  masked and shifted).
\<close>

definition pack_word :: "machine_word \<Rightarrow> 32 word" where
  "pack_word mw = (case wordType mw of
      FIRST_WORD_TYPE \<Rightarrow>
        push_bit 10 (get_field FW_ARE mw AND 0x3) OR push_bit 7 (get_field FW_dst_op_addr mw AND 0x7)
        OR push_bit 3 (get_field FW_op_code mw AND 0xF) OR (get_field FW_src_op_addr mw AND 0x7)
    | IMMDT_DRCT_WORD_TYPE \<Rightarrow>
        push_bit 10 (get_field ID_ARE mw AND 0x3) OR (get_field ID_operand mw AND 0x3FF)
    | DATA_WORD_TYPE \<Rightarrow> get_field DW_data mw AND 0xFFF
    | RGSTR_WORD_TYPE \<Rightarrow>
        push_bit 10 (get_field RW_ARE mw AND 0x3) OR push_bit 6 (get_field RW_dst_op_addr mw AND 0xF)
        OR (get_field RW_src_op_addr mw AND 0xF)
    | OTHER_WORD_TYPE \<Rightarrow> 0)"

text \<open>
  \<^verbatim>\<open>convertToBinary\<close>: the value (an \<^verbatim>\<open>unsigned short\<close>) and the text written to
  the extern file, the entry file and standard output.  A label word is looked up by
  its name: when found, its name and the address stored in the word go to the extern
  file if it is external, and to the entry file if it is an entry or not external; the
  value stays 0 in both branches.  The \<^verbatim>\<open>lineNumber\<close> argument is printed in the
  diagnostics.
\<close>

definition convertToBinary ::
  "machine_word \<Rightarrow> label list \<Rightarrow> int \<Rightarrow> (16 word \<times> char list \<times> char list \<times> char list) cres" where
  "convertToBinary mw tbl ln =
     (if isLabel mw then
        cbind (label_str (name (label mw))) (\<lambda>nm.
          if findLabel nm tbl then
            (let ln_txt = nm @ [CHR 0x09] @ show_int (address (label mw)) in
             Inr (0, if isExternal (label mw) then ln_txt else [],
                     if isEntry (label mw) \<or> \<not> isExternal (label mw) then ln_txt else [], []))
          else Inr (0, [], [], ''Error found at line #'' @ show_int ln @ '': Invalid label name.''
                                @ [CHR 0x0A]))
      else Inr (ucast (pack_word mw) AND 0xFFF, [], [],
                if wordType mw = OTHER_WORD_TYPE
                then ''Error found at line #'' @ show_int ln @ '': Unknown word type.'' @ [CHR 0x0A]
                else []))"

definition base64Chars :: "char list" where
  "base64Chars = ''ABCDEFGHIJKLMNOPQRSTUVWXYZabcdefghijklmnopqrstuvwxyz0123456789+/''"

text \<open>
  \<^verbatim>\<open>binaryToBase64\<close>: the two characters of the high and the low 6-bit group and
  the terminating NUL, in the 3-byte buffer it allocates (the allocation is assumed
  to succeed).
\<close>

definition binaryToBase64 :: "16 word \<Rightarrow> char list" where
  "binaryToBase64 w =
     (let b = w AND 0xFFF in
      [base64Chars ! unat (drop_bit 6 b AND 0x3F), base64Chars ! unat (b AND 0x3F), NUL])"

text \<open>\<^verbatim>\<open>printBinaryRepresentation\<close>: bits 11 down to 0, then a newline.\<close>

definition printBinaryRepresentation :: "16 word \<Rightarrow> char list" where
  "printBinaryRepresentation n =
     map (\<lambda>i. if (ucast n :: 32 word) AND push_bit i 1 \<noteq> 0 then CHR ''1'' else CHR ''0'')
       (rev [0..<12]) @ [CHR 0x0A]"

section \<open>The conversion loops\<close>

text \<open>The streams \<^verbatim>\<open>convertArrays\<close> writes to: the extern and entry files and standard output.\<close>

record outs =
  extOut :: "char list"
  entOut :: "char list"
  stdOut :: "char list"

text \<open>
  The four arrays of \<^verbatim>\<open>main\<close> that \<^verbatim>\<open>convertArrays\<close> fills: the 12-bit values
  (\<^verbatim>\<open>unsigned short[MAX_MEMORY_SPACE]\<close>) and the base64 text
  (\<^verbatim>\<open>char[MAX_MEMORY_SPACE]\<close>) of each image.
\<close>

record ser_arrays =
  codeImageBinary :: "nat \<Rightarrow> 16 word"
  dataImageBinary :: "nat \<Rightarrow> 16 word"
  codeImage64 :: "nat \<Rightarrow> char"
  dataImage64 :: "nat \<Rightarrow> char"

text \<open>
  The first two loops of \<^verbatim>\<open>convertArrays\<close>, over the indices \<open>0 ..< IC\<close> (or
  \<open>DC\<close>): read word \<open>i\<close> of the image, store its value at index \<open>i\<close> of the
  binary array, print it.
\<close>

fun bin_loop ::
  "label list \<Rightarrow> image \<Rightarrow> int list \<Rightarrow> (nat \<Rightarrow> 16 word) \<times> outs \<Rightarrow> ((nat \<Rightarrow> 16 word) \<times> outs) cres" where
  "bin_loop tbl img [] acc = Inr acc"
| "bin_loop tbl img (i # is) (bin, os) =
     (if \<not> (0 \<le> i \<and> i < MAX_MEMORY_SPACE) then Inl Undefined_behaviour
      else cbind (convertToBinary (img (nat i)) tbl i) (\<lambda>(b, ex, en, out).
        cbind (arr_upd (nat MAX_MEMORY_SPACE) i (\<lambda>_. b) bin) (\<lambda>bin'.
          bin_loop tbl img is (bin', os\<lparr>extOut := extOut os @ ex, entOut := entOut os @ en,
            stdOut := stdOut os @ out @ ''Binary representation of word '' @ show_int (i + 1)
                      @ '': '' @ printBinaryRepresentation (bin' (nat i))\<rparr>))))"

text \<open>
  \<^verbatim>\<open>strcpy(&a[k], s)\<close> into an array of \<open>n\<close> characters: the characters of the C
  string and its NUL, one store each.
\<close>

fun arr_copy :: "nat \<Rightarrow> int \<Rightarrow> char list \<Rightarrow> (nat \<Rightarrow> char) \<Rightarrow> (nat \<Rightarrow> char) cres" where
  "arr_copy n k [] a = Inr a"
| "arr_copy n k (c # cs) a = cbind (arr_upd n k (\<lambda>_. c) a) (arr_copy n (k + 1) cs)"

definition strcpy_at :: "nat \<Rightarrow> int \<Rightarrow> char list \<Rightarrow> (nat \<Rightarrow> char) \<Rightarrow> (nat \<Rightarrow> char) cres" where
  "strcpy_at n k s a = arr_copy n k (cstr s @ [NUL]) a"

text \<open>
  The last two loops: the base64 text of value \<open>i\<close> is copied to index \<open>2 * i\<close> of
  the text array and printed.
\<close>

fun b64_loop ::
  "(nat \<Rightarrow> 16 word) \<Rightarrow> int list \<Rightarrow> (nat \<Rightarrow> char) \<times> char list \<Rightarrow> ((nat \<Rightarrow> char) \<times> char list) cres" where
  "b64_loop bin [] acc = Inr acc"
| "b64_loop bin (i # is) (a, out) =
     (if \<not> (0 \<le> i \<and> i < MAX_MEMORY_SPACE) then Inl Undefined_behaviour
      else (let rep = binaryToBase64 (bin (nat i)) in
        cbind (strcpy_at (nat MAX_MEMORY_SPACE) (i * 2) rep a) (\<lambda>a'.
          b64_loop bin is (a', out @ ''Base64 representation: '' @ cstr rep @ [CHR 0x0A]))))"

text \<open>
  \<^verbatim>\<open>convertArrays\<close>: the four loops in order, then the NUL after the last code of
  each text array, at index \<open>2 * IC\<close> and \<open>2 * DC\<close>.  The extern and entry text
  starts empty: \<^verbatim>\<open>writeFiles\<close> has just opened both files for writing.
\<close>

definition convertArrays ::
  "image \<Rightarrow> image \<Rightarrow> ser_arrays \<Rightarrow> label list \<Rightarrow> int \<Rightarrow> int \<Rightarrow> (ser_arrays \<times> outs) cres" where
  "convertArrays ci di arrs tbl ic dc =
     cbind (bin_loop tbl ci [0..ic - 1] (codeImageBinary arrs, \<lparr>extOut = [], entOut = [], stdOut = []\<rparr>))
       (\<lambda>(cb, os1).
     cbind (bin_loop tbl di [0..dc - 1] (dataImageBinary arrs, os1)) (\<lambda>(db, os2).
     cbind (b64_loop cb [0..ic - 1] (codeImage64 arrs, stdOut os2)) (\<lambda>(c64, out3).
     cbind (b64_loop db [0..dc - 1] (dataImage64 arrs, out3)) (\<lambda>(d64, out4).
     cbind (arr_upd (nat MAX_MEMORY_SPACE) (ic * 2) (\<lambda>_. NUL) c64) (\<lambda>c64'.
     cbind (arr_upd (nat MAX_MEMORY_SPACE) (dc * 2) (\<lambda>_. NUL) d64) (\<lambda>d64'.
       Inr (\<lparr>codeImageBinary = cb, dataImageBinary = db, codeImage64 = c64', dataImage64 = d64'\<rparr>,
            os2\<lparr>stdOut := out4\<rparr>)))))))"

section \<open>The output files\<close>

text \<open>
  \<^verbatim>\<open>writeLabelFiles\<close>: the list from \<^verbatim>\<open>labelTable.head\<close>; an entry label goes
  to the entry file, otherwise an external one to the extern file.
\<close>

fun writeLabelFiles :: "label list \<Rightarrow> char list \<times> char list \<Rightarrow> char list \<times> char list" where
  "writeLabelFiles [] (en, ex) = (en, ex)"
| "writeLabelFiles (l # ls) (en, ex) =
     writeLabelFiles ls
       (if isEntry l then (en @ name l @ '' '' @ show_int (address l) @ [CHR 0x0A], ex)
        else if isExternal l then (en, ex @ name l @ '' '' @ show_int (address l) @ [CHR 0x0A])
        else (en, ex))"

definition MAX_FILE_NAME_LENGTH :: nat where
  "MAX_FILE_NAME_LENGTH = 76"

text \<open>\<^verbatim>\<open>strrchr(s, c)\<close>: the index of the last occurrence of \<open>c\<close> in the C string.\<close>

definition strrchr :: "char list \<Rightarrow> char \<Rightarrow> nat option" where
  "strrchr s c = (let t = cstr s in
     if c \<in> set t then Some (length t - 1 - length (takeWhile (\<lambda>x. x \<noteq> c) (rev t))) else None)"

text \<open>
  \<^verbatim>\<open>generateOutputFileNames\<close>: the entry, extern and object file names, or
  \<open>None\<close> when it prints an error and returns without writing them.
\<close>

definition generateOutputFileNames :: "char list \<Rightarrow> (char list \<times> char list \<times> char list) option" where
  "generateOutputFileNames f =
     (case strrchr f (CHR ''.'') of
        None \<Rightarrow> None
      | Some k \<Rightarrow>
          if drop k (cstr f) = ''.am'' then
            (if k < MAX_FILE_NAME_LENGTH - 4 then
               (let base = take k (cstr f) in
                Some (take (MAX_FILE_NAME_LENGTH - 1) (base @ ''.ent''),
                      take (MAX_FILE_NAME_LENGTH - 1) (base @ ''.ext''),
                      take (MAX_FILE_NAME_LENGTH - 1) (base @ ''.obj'')))
             else None)
          else None)"

text \<open>
  The lines \<^verbatim>\<open>fprintf(objFile, "%d:\t %s\n", addr(i), &image64[i])\<close> of the
  object file, for the indices \<open>is\<close>.
\<close>

fun obj_lines :: "(nat \<Rightarrow> char) \<Rightarrow> (int \<Rightarrow> int) \<Rightarrow> int list \<Rightarrow> char list cres" where
  "obj_lines a addr [] = Inr []"
| "obj_lines a addr (i # is) =
     (if i < 0 then Inl Undefined_behaviour
      else cbind (read_cstr a (nat MAX_MEMORY_SPACE) (nat i)) (\<lambda>s.
        cbind (obj_lines a addr is) (\<lambda>r.
          Inr (show_int (addr i) @ [CHR '':'', CHR 0x09, CHR '' ''] @ s @ [CHR 0x0A] @ r))))"

text \<open>
  \<^verbatim>\<open>writeFiles\<close>.  The file system maps a name to the content of the file; which
  names \<^verbatim>\<open>fopen\<close> can open for writing is the parameter \<open>can_open\<close>.  A file
  opened with \<^verbatim>\<open>"w"\<close> is truncated; when an \<^verbatim>\<open>fopen\<close> fails the function returns
  and the files opened before stay empty.  When \<^verbatim>\<open>generateOutputFileNames\<close> fails
  the name arrays are never written and \<^verbatim>\<open>fopen\<close> reads them: undefined
  behaviour.  The result is the new file system, the arrays and the text printed on
  standard output.
\<close>

definition writeFiles ::
  "(char list \<Rightarrow> bool) \<Rightarrow> char list \<Rightarrow> image \<Rightarrow> image \<Rightarrow> ser_arrays \<Rightarrow> label list \<Rightarrow> int \<Rightarrow> int
   \<Rightarrow> fsys \<Rightarrow> (fsys \<times> ser_arrays \<times> char list) cres" where
  "writeFiles can_open fname ci di arrs tbl ic dc fs =
     (case generateOutputFileNames fname of
        None \<Rightarrow> Inl Undefined_behaviour
      | Some (ent, ext, obj) \<Rightarrow>
          if \<not> can_open obj then Inr (fs, arrs, [])
          else if \<not> can_open ext then Inr (fs(obj \<mapsto> []), arrs, [])
          else if \<not> can_open ent then Inr (fs(obj \<mapsto> [], ext \<mapsto> []), arrs, [])
          else cbind (convertArrays ci di arrs tbl ic dc) (\<lambda>(arrs', os).
            cbind (obj_lines (codeImage64 arrs') (\<lambda>i. i) [0..ic - 1]) (\<lambda>cl.
            cbind (obj_lines (dataImage64 arrs') (\<lambda>i. ic + i) [0..dc - 1]) (\<lambda>dl.
              (let (en, ex) = writeLabelFiles tbl (entOut os, extOut os) in
               Inr (fs(obj \<mapsto> show_int ic @ '' '' @ show_int dc @ [CHR 0x0A] @ cl @ dl,
                       ext \<mapsto> ex, ent \<mapsto> en), arrs', stdOut os))))))"

section \<open>Reference functions\<close>

text \<open>
  Readings of the serializer's output used to state what it computes: the 12-bit value
  of a word as arithmetic on its fields (with the field order of the \<^verbatim>\<open>switch\<close>
  in \<^verbatim>\<open>convertToBinary\<close>), the inverse of the base64 alphabet, and the number a
  string of binary digits denotes.
\<close>

definition word_value :: "machine_word \<Rightarrow> nat" where
  "word_value mw = (let f = (\<lambda>x. unat (get_field x mw)) in
     case wordType mw of
       FIRST_WORD_TYPE \<Rightarrow> f FW_ARE * 1024 + f FW_dst_op_addr * 128 + f FW_op_code * 8 + f FW_src_op_addr
     | IMMDT_DRCT_WORD_TYPE \<Rightarrow> f ID_ARE * 1024 + f ID_operand
     | DATA_WORD_TYPE \<Rightarrow> f DW_data
     | RGSTR_WORD_TYPE \<Rightarrow> f RW_ARE * 1024 + f RW_dst_op_addr mod 16 * 64 + f RW_src_op_addr mod 16
     | OTHER_WORD_TYPE \<Rightarrow> 0)"

definition b64_val :: "char \<Rightarrow> nat" where
  "b64_val c = length (takeWhile (\<lambda>x. x \<noteq> c) base64Chars)"

definition b64_decode :: "char list \<Rightarrow> 16 word" where
  "b64_decode s = of_nat (64 * b64_val (s ! 0) + b64_val (s ! 1))"

definition bin_val :: "char list \<Rightarrow> nat" where
  "bin_val s = foldl (\<lambda>acc c. 2 * acc + (if c = CHR ''1'' then 1 else 0)) 0 s"

lemmas serializer_eval [c_eval] = show_int_def label_str_def pack_word_def convertToBinary_def
  base64Chars_def binaryToBase64_def printBinaryRepresentation_def strcpy_at_def convertArrays_def
  MAX_FILE_NAME_LENGTH_def strrchr_def generateOutputFileNames_def writeFiles_def


section \<open>Lemmas\<close>

lemma mask_consts: "(0x3 :: 32 word) = mask 2" "(0x7 :: 32 word) = mask 3"
  "(0xF :: 32 word) = mask 4" "(0x3FF :: 32 word) = mask 10" "(0xFFF :: 32 word) = mask 12"
  "(0x3F :: 16 word) = mask 6" "(0xFFF :: 16 word) = mask 12"
  by (simp_all add: mask_eq_exp_minus_1)

lemma get_field_mask: "snd (field_layout f) \<le> n \<Longrightarrow> get_field f mw AND mask n = get_field f mw"
  by (rule word_and_mask_self, rule less_le_trans [OF get_field_less]) simp

lemma pack_first_unat:
  assumes "wordType mw = FIRST_WORD_TYPE"
  shows "unat (pack_word mw) = unat (get_field FW_ARE mw) * 1024 + unat (get_field FW_dst_op_addr mw) * 128
    + unat (get_field FW_op_code mw) * 8 + unat (get_field FW_src_op_addr mw)"
proof -
  have a: "unat (get_field FW_ARE mw) < 4" and d: "unat (get_field FW_dst_op_addr mw) < 8"
    and c: "unat (get_field FW_op_code mw) < 16" and s: "unat (get_field FW_src_op_addr mw) < 8"
    using get_field_less [of FW_ARE mw] get_field_less [of FW_dst_op_addr mw]
      get_field_less [of FW_op_code mw] get_field_less [of FW_src_op_addr mw] by simp_all
  show ?thesis using assms a d c s
    by (simp add: pack_word_def mask_consts get_field_mask or.assoc unat_push_bit_or)
qed
lemma pack_word_unat: "unat (pack_word mw) = word_value mw"
proof -
  let ?f = "\<lambda>x. unat (get_field x mw)"
  have l: "?f x < 2 ^ snd (field_layout x)" for x by (rule get_field_less)
  show ?thesis
  proof (cases "wordType mw")
    case FIRST_WORD_TYPE
    then show ?thesis by (simp add: pack_first_unat word_value_def)
  next
    case IMMDT_DRCT_WORD_TYPE
    with l [of ID_ARE] l [of ID_operand] show ?thesis
      by (simp add: pack_word_def word_value_def mask_consts get_field_mask unat_push_bit_or)
  next
    case DATA_WORD_TYPE
    then show ?thesis by (simp add: pack_word_def word_value_def mask_consts get_field_mask)
  next
    case RGSTR_WORD_TYPE
    have "?f RW_src_op_addr mod 16 < 16" "?f RW_dst_op_addr mod 16 < 16" by simp_all
    with RGSTR_WORD_TYPE l [of RW_ARE] show ?thesis
      by (simp add: pack_word_def word_value_def mask_consts get_field_mask or.assoc unat_push_bit_or
          unat_and_mask del: push_bit_and)
  next
    case OTHER_WORD_TYPE
    then show ?thesis by (simp add: pack_word_def word_value_def)
  qed
qed

lemma word_value_less: "word_value mw < 4096"
proof -
  let ?f = "\<lambda>x. unat (get_field x mw)"
  have l: "?f x < 2 ^ snd (field_layout x)" for x by (rule get_field_less)
  show ?thesis
    using l [of FW_ARE] l [of FW_dst_op_addr] l [of FW_op_code] l [of FW_src_op_addr]
      l [of ID_ARE] l [of ID_operand] l [of DW_data] l [of RW_ARE]
    by (cases "wordType mw") (simp_all add: word_value_def)
qed

lemma binary_of_pack: "ucast (pack_word mw) AND 0xFFF = (of_nat (word_value mw) :: 16 word)"
proof -
  have "unat (ucast (pack_word mw) AND 0xFFF :: 16 word) = word_value mw"
    using word_value_less [of mw]
    by (simp add: mask_consts unat_and_mask unsigned_ucast_eq take_bit_nat_def pack_word_unat)
  moreover have "unat (of_nat (word_value mw) :: 16 word) = word_value mw"
    using word_value_less [of mw] by (simp add: unat_of_nat)
  ultimately show ?thesis by (metis word_unat_eq_iff)
qed

text \<open>
  C23.  \<^verbatim>\<open>convertToBinary\<close> of a word that is not a label word returns the 12-bit
  value \<open>word_value\<close>: the bit operations of the \<^verbatim>\<open>switch\<close> compute the arithmetic
  packing of the fields, with nothing lost to the masks except the top bit of a
  5-bit register field; the value is below 4096.  For a first word the packing is
  \<open>ARE * 1024 + dst * 128 + opcode * 8 + src\<close>: the opcode sits in bits 3 to 6 and the
  source mode in bits 0 to 2, the reverse of the order of the specification's layout.
\<close>

theorem convertToBinary_refines:
  "\<not> isLabel mw \<Longrightarrow> \<exists>out. convertToBinary mw tbl ln = Inr (of_nat (word_value mw), [], [], out)"
  by (simp add: convertToBinary_def binary_of_pack)


theorem convertToBinary_refines_witness:
  "\<exists>out. convertToBinary \<lparr>label = \<lparr>name = [], address = 0, isExternal = False, isEntry = False, isData = False\<rparr>,
      isLabel = False, wordType = DATA_WORD_TYPE, word = 65, line_number = 1\<rparr> [] 0 = Inr (65, [], [], out)"
proof -
  have "word_value \<lparr>label = \<lparr>name = [], address = 0, isExternal = False, isEntry = False, isData = False\<rparr>,
      isLabel = False, wordType = DATA_WORD_TYPE, word = 65, line_number = 1\<rparr> = 65"
    by (simp add: word_value_def get_field_def bf_eval)
  with convertToBinary_refines [of "\<lparr>label = \<lparr>name = [], address = 0, isExternal = False, isEntry = False, isData = False\<rparr>,
      isLabel = False, wordType = DATA_WORD_TYPE, word = 65, line_number = 1\<rparr>" "[]" 0]
  show ?thesis by simp
qed

lemma takeWhile_nth_distinct:
  "distinct xs \<Longrightarrow> k < length xs \<Longrightarrow> length (takeWhile (\<lambda>x. x \<noteq> xs ! k) xs) = k"
proof (induction xs arbitrary: k)
  case (Cons x xs)
  then show ?case by (cases k) (auto simp: nth_mem)
qed simp

lemma base64Chars_facts: "distinct base64Chars" "length base64Chars = 64" "NUL \<notin> set base64Chars"
  by (simp_all add: base64Chars_def)

lemma b64_val_nth: "k < 64 \<Longrightarrow> b64_val (base64Chars ! k) = k"
  by (simp add: b64_val_def takeWhile_nth_distinct base64Chars_facts)

lemma b64_groups:
  fixes w :: "16 word"
  shows "unat (drop_bit 6 (w AND 0xFFF) AND 0x3F) = unat (w AND 0xFFF) div 64"
    and "unat ((w AND 0xFFF) AND 0x3F) = unat (w AND 0xFFF) mod 64"
    and "unat (w AND 0xFFF) < 4096"
proof -
  have lt: "unat (w AND 0xFFF) < 4096"
    by (simp add: mask_consts unat_and_mask)
  then show "unat (w AND 0xFFF) < 4096" .
  show "unat ((w AND 0xFFF) AND 0x3F) = unat (w AND 0xFFF) mod 64"
    by (simp only: mask_consts unat_and_mask) simp
  have "unat (drop_bit 6 (w AND 0xFFF)) = unat (w AND 0xFFF) div 64"
    by (simp add: drop_bit_eq_div unat_div)
  with lt show "unat (drop_bit 6 (w AND 0xFFF) AND 0x3F) = unat (w AND 0xFFF) div 64"
    by (simp only: mask_consts unat_and_mask) simp
qed

text \<open>
  C24.  The two characters \<^verbatim>\<open>binaryToBase64\<close> produces determine the 12-bit value:
  decoding them through the base64 alphabet, high group first, gives back the value
  masked to 12 bits.
\<close>

theorem binaryToBase64_roundtrip: "b64_decode (binaryToBase64 w) = w AND 0xFFF"
proof -
  have "unat (w AND 0xFFF) div 64 < 64" using b64_groups(3) [of w] by simp
  then have "64 * b64_val (base64Chars ! (unat (w AND 0xFFF) div 64))
      + b64_val (base64Chars ! (unat (w AND 0xFFF) mod 64)) = unat (w AND 0xFFF)"
    by (simp add: b64_val_nth)
  then have "b64_decode (binaryToBase64 w) = of_nat (unat (w AND 0xFFF))"
    unfolding b64_decode_def binaryToBase64_def Let_def b64_groups(1,2) by simp
  then show ?thesis by simp
qed

lemma upto_map_int: "[0..int n - 1] = map int [0..<n]"
proof (induction n)
  case (Suc n)
  have "[0..int n] = [0..int n - 1] @ [int n]"
    by (simp only: upto_rec2 [of 0 "int n"])
  then have "[0..int (Suc n) - 1] = [0..int n - 1] @ [int n]" by simp
  with Suc show ?case by simp
qed simp

lemma bin_loop_append:
  "bin_loop tbl img (xs @ ys) (bin, os) = cbind (bin_loop tbl img xs (bin, os)) (bin_loop tbl img ys)"
proof (induction xs arbitrary: bin os)
  case (Cons i xs)
  show ?case
  proof (cases "convertToBinary (img (nat i)) tbl i")
    case (Inr r)
    then show ?thesis using Cons.IH by (cases r rule: prod_cases4) (simp add: cbind_assoc)
  qed simp
qed simp

lemma b64_loop_append:
  "b64_loop bin (xs @ ys) (a, out) = cbind (b64_loop bin xs (a, out)) (b64_loop bin ys)"
  by (induction xs arbitrary: a out) (simp_all add: cbind_assoc Let_def)


lemma convertToBinary_nonlabel:
  "\<not> isLabel mw \<Longrightarrow> convertToBinary mw tbl ln = Inr (of_nat (word_value mw), [], [],
     if wordType mw = OTHER_WORD_TYPE
     then ''Error found at line #'' @ show_int ln @ '': Unknown word type.'' @ [CHR 0x0A] else [])"
  by (simp add: convertToBinary_def binary_of_pack)

lemma bin_loop_upto:
  assumes "n \<le> nat MAX_MEMORY_SPACE" and "\<forall>k<n. \<not> isLabel (img k)"
  shows "\<exists>os'. bin_loop tbl img (map int [0..<n]) (bin, os)
           = Inr (\<lambda>k. if k < n then of_nat (word_value (img k)) else bin k, os')"
  using assms
proof (induction n)
  case (Suc n)
  then obtain os1 where ih: "bin_loop tbl img (map int [0..<n]) (bin, os)
      = Inr (\<lambda>k. if k < n then of_nat (word_value (img k)) else bin k, os1)" by auto
  have "(\<lambda>k. if k < n then of_nat (word_value (img k)) else bin k)(n := of_nat (word_value (img n)))
      = (\<lambda>k. if k < Suc n then of_nat (word_value (img k)) else bin k)"
    by (auto simp: fun_eq_iff)
  with Suc.prems show ?case
    by (simp add: bin_loop_append ih convertToBinary_nonlabel MAX_MEMORY_SPACE_def)
qed simp

lemma binaryToBase64_chars:
  "binaryToBase64 w = [binaryToBase64 w ! 0, binaryToBase64 w ! 1, NUL]"
  "binaryToBase64 w ! 0 \<noteq> NUL" "binaryToBase64 w ! 1 \<noteq> NUL"
proof -
  have "unat (drop_bit 6 (w AND 0xFFF) AND 0x3F) < 64" "unat ((w AND 0xFFF) AND 0x3F) < 64"
    using b64_groups [of w] by simp_all
  then have "base64Chars ! unat (drop_bit 6 (w AND 0xFFF) AND 0x3F) \<in> set base64Chars"
      "base64Chars ! unat ((w AND 0xFFF) AND 0x3F) \<in> set base64Chars"
    by (simp_all add: nth_mem base64Chars_facts)
  then show "binaryToBase64 w = [binaryToBase64 w ! 0, binaryToBase64 w ! 1, NUL]"
    "binaryToBase64 w ! 0 \<noteq> NUL" "binaryToBase64 w ! 1 \<noteq> NUL"
    using base64Chars_facts(3) unfolding binaryToBase64_def Let_def by auto
qed

lemma strcpy_b64:
  assumes "2 * k + 2 < 1024"
  shows "strcpy_at (nat MAX_MEMORY_SPACE) (int k * 2) (binaryToBase64 w) a
    = Inr (a(2 * k := binaryToBase64 w ! 0, 2 * k + 1 := binaryToBase64 w ! 1, 2 * k + 2 := NUL))"
proof -
  have c: "cstr (binaryToBase64 w) = [binaryToBase64 w ! 0, binaryToBase64 w ! 1]"
    using binaryToBase64_chars(2,3) by (subst binaryToBase64_chars(1)) (simp add: cstr_def)
  have n: "nat (int k * 2) = 2 * k" "nat (int k * 2 + 1) = 2 * k + 1" "nat (2 + int k * 2) = 2 * k + 2"
    by simp_all
  show ?thesis using assms
    by (simp add: strcpy_at_def c MAX_MEMORY_SPACE_def n)
qed


lemma b64_loop_upto:
  assumes "n \<le> 511"
  shows "\<exists>out'. b64_loop bin (map int [0..<n]) (a, out)
    = Inr (\<lambda>k. if k < 2 * n then binaryToBase64 (bin (k div 2)) ! (k mod 2)
               else if k = 2 * n \<and> 0 < n then NUL else a k, out')"
  using assms
proof (induction n)
  case (Suc n)
  let ?A = "\<lambda>k. if k < 2 * n then binaryToBase64 (bin (k div 2)) ! (k mod 2)
               else if k = 2 * n \<and> 0 < n then NUL else a k"
  from Suc obtain out1 where ih: "b64_loop bin (map int [0..<n]) (a, out) = Inr (?A, out1)" by auto
  have "?A(2 * n := binaryToBase64 (bin n) ! 0, 2 * n + 1 := binaryToBase64 (bin n) ! 1, 2 * n + 2 := NUL)
      = (\<lambda>k. if k < 2 * Suc n then binaryToBase64 (bin (k div 2)) ! (k mod 2)
               else if k = 2 * Suc n \<and> 0 < Suc n then NUL else a k)"
    by (auto simp: fun_eq_iff)
  moreover have "2 * n + 2 < 1024" and "int n < MAX_MEMORY_SPACE"
    using Suc.prems by (simp_all add: MAX_MEMORY_SPACE_def)
  ultimately show ?case
    by (simp add: b64_loop_append ih strcpy_b64 Let_def)
qed simp


lemma binaryToBase64_of_nat:
  assumes "v < 4096"
  shows "binaryToBase64 (of_nat v) ! 0 = base64Chars ! (v div 64)"
    and "binaryToBase64 (of_nat v) ! 1 = base64Chars ! (v mod 64)"
proof -
  have "unat (of_nat v AND 0xFFF :: 16 word) = v"
    using assms by (simp only: mask_consts unat_and_mask) (simp add: unat_of_nat)
  then show "binaryToBase64 (of_nat v) ! 0 = base64Chars ! (v div 64)"
    and "binaryToBase64 (of_nat v) ! 1 = base64Chars ! (v mod 64)"
    unfolding binaryToBase64_def Let_def b64_groups(1,2) by simp_all
qed

lemma convertArrays_range:
  "convertArrays ci di arrs tbl ic dc = Inr r \<Longrightarrow> 0 \<le> ic \<and> ic \<le> 511 \<and> 0 \<le> dc \<and> dc \<le> 511"
proof -
  assume "convertArrays ci di arrs tbl ic dc = Inr r"
  then obtain c64 d64 c64' d64' where
    "arr_upd (nat MAX_MEMORY_SPACE) (ic * 2) (\<lambda>_. NUL) c64 = Inr c64'"
    "arr_upd (nat MAX_MEMORY_SPACE) (dc * 2) (\<lambda>_. NUL) d64 = Inr d64'"
    unfolding convertArrays_def by (auto simp: cbind_eq_Inr split: prod.splits)
  then show ?thesis by (simp add: arr_upd_def MAX_MEMORY_SPACE_def split: if_splits)
qed

text \<open>
  C25.  \<^verbatim>\<open>convertArrays\<close> is defined only when \<open>IC\<close> and \<open>DC\<close> are between 0
  and 511: the base64 arrays have \<^verbatim>\<open>MAX_MEMORY_SPACE\<close> characters and word \<open>i\<close>
  writes three of them from \<open>2 * i\<close>.  The assembler accepts up to
  \<open>IC + DC = MAX_MEMORY_SPACE - 1\<close>, so an image of 512 or more code words is
  undefined behaviour here.
\<close>

theorem convertArrays_bounds:
  "convertArrays ci di arrs tbl ic dc = Inr r \<Longrightarrow> 0 \<le> ic \<and> ic \<le> 511 \<and> 0 \<le> dc \<and> dc \<le> 511"
  by (rule convertArrays_range)

theorem convertArrays_bounds_witness:
  "\<exists>r. convertArrays (\<lambda>_. \<lparr>label = \<lparr>name = [], address = 0, isExternal = False, isEntry = False, isData = False\<rparr>,
      isLabel = False, wordType = DATA_WORD_TYPE, word = 0, line_number = 1\<rparr>)
    (\<lambda>_. \<lparr>label = \<lparr>name = [], address = 0, isExternal = False, isEntry = False, isData = False\<rparr>,
      isLabel = False, wordType = DATA_WORD_TYPE, word = 0, line_number = 1\<rparr>)
    \<lparr>codeImageBinary = \<lambda>_. 0, dataImageBinary = \<lambda>_. 0, codeImage64 = \<lambda>_. NUL, dataImage64 = \<lambda>_. NUL\<rparr>
    [] 2 1 = Inr r \<and> (0::int) \<le> 2 \<and> (2::int) \<le> 511"
proof -
  obtain r where r: "convertArrays (\<lambda>_. \<lparr>label = \<lparr>name = [], address = 0, isExternal = False, isEntry = False, isData = False\<rparr>,
      isLabel = False, wordType = DATA_WORD_TYPE, word = 0, line_number = 1\<rparr>)
    (\<lambda>_. \<lparr>label = \<lparr>name = [], address = 0, isExternal = False, isEntry = False, isData = False\<rparr>,
      isLabel = False, wordType = DATA_WORD_TYPE, word = 0, line_number = 1\<rparr>)
    \<lparr>codeImageBinary = \<lambda>_. 0, dataImageBinary = \<lambda>_. 0, codeImage64 = \<lambda>_. NUL, dataImage64 = \<lambda>_. NUL\<rparr>
    [] 2 1 = Inr r"
    by (simp add: c_eval get_field_def upto.simps show_nat.simps MAX_MEMORY_SPACE_def)
  from convertArrays_bounds [OF r] r show ?thesis by blast
qed

text \<open>
  C26.  When \<open>IC\<close> and \<open>DC\<close> are between 0 and 511 and no word of the images is a
  label word, \<^verbatim>\<open>convertArrays\<close> returns, and for every word \<open>k\<close> the binary array
  holds its value and characters \<open>2 * k\<close> and \<open>2 * k + 1\<close> of the text array hold the
  base64 characters of its high and low 6-bit groups, followed at \<open>2 * IC\<close> by a NUL.
\<close>

theorem convertArrays_encodes:
  assumes "0 \<le> ic" "ic \<le> 511" "0 \<le> dc" "dc \<le> 511"
    and "\<forall>k < nat ic. \<not> isLabel (ci k)" and "\<forall>k < nat dc. \<not> isLabel (di k)"
  shows "\<exists>arrs' os. convertArrays ci di arrs tbl ic dc = Inr (arrs', os) \<and>
    (\<forall>k < nat ic. codeImageBinary arrs' k = of_nat (word_value (ci k)) \<and>
        codeImage64 arrs' (2 * k) = base64Chars ! (word_value (ci k) div 64) \<and>
        codeImage64 arrs' (2 * k + 1) = base64Chars ! (word_value (ci k) mod 64)) \<and>
    codeImage64 arrs' (2 * nat ic) = NUL \<and>
    (\<forall>k < nat dc. dataImageBinary arrs' k = of_nat (word_value (di k)) \<and>
        dataImage64 arrs' (2 * k) = base64Chars ! (word_value (di k) div 64) \<and>
        dataImage64 arrs' (2 * k + 1) = base64Chars ! (word_value (di k) mod 64)) \<and>
    dataImage64 arrs' (2 * nat dc) = NUL"
proof -
  let ?cb = "\<lambda>k. if k < nat ic then of_nat (word_value (ci k)) else codeImageBinary arrs k"
  let ?db = "\<lambda>k. if k < nat dc then of_nat (word_value (di k)) else dataImageBinary arrs k"
  have lim: "nat ic \<le> nat MAX_MEMORY_SPACE" "nat dc \<le> nat MAX_MEMORY_SPACE" "nat ic \<le> 511" "nat dc \<le> 511"
    using assms(2,4) by (simp_all add: MAX_MEMORY_SPACE_def)
  have ul: "[0..ic - 1] = map int [0..<nat ic]" "[0..dc - 1] = map int [0..<nat dc]"
    using upto_map_int [of "nat ic"] upto_map_int [of "nat dc"] assms(1,3) by simp_all
  obtain os1 where b1: "bin_loop tbl ci (map int [0..<nat ic]) (codeImageBinary arrs, \<lparr>extOut = [], entOut = [], stdOut = []\<rparr>)
      = Inr (?cb, os1)"
    using bin_loop_upto [OF lim(1) assms(5)] by blast
  obtain os2 where b2: "bin_loop tbl di (map int [0..<nat dc]) (dataImageBinary arrs, os1) = Inr (?db, os2)"
    using bin_loop_upto [OF lim(2) assms(6)] by blast
  obtain out3 where b3: "b64_loop ?cb (map int [0..<nat ic]) (codeImage64 arrs, stdOut os2)
      = Inr (\<lambda>k. if k < 2 * nat ic then binaryToBase64 (?cb (k div 2)) ! (k mod 2)
               else if k = 2 * nat ic \<and> 0 < nat ic then NUL else codeImage64 arrs k, out3)"
    using b64_loop_upto [OF lim(3)] by blast
  obtain out4 where b4: "b64_loop ?db (map int [0..<nat dc]) (dataImage64 arrs, out3)
      = Inr (\<lambda>k. if k < 2 * nat dc then binaryToBase64 (?db (k div 2)) ! (k mod 2)
               else if k = 2 * nat dc \<and> 0 < nat dc then NUL else dataImage64 arrs k, out4)"
    using b64_loop_upto [OF lim(4)] by blast
  have w: "0 \<le> ic * 2" "ic * 2 < MAX_MEMORY_SPACE" "0 \<le> dc * 2" "dc * 2 < MAX_MEMORY_SPACE"
    "nat (ic * 2) = 2 * nat ic" "nat (dc * 2) = 2 * nat dc"
    using assms(1-4) by (simp_all add: MAX_MEMORY_SPACE_def nat_mult_distrib)
  have v: "word_value (ci k) < 4096" "word_value (di k) < 4096" for k
    by (simp_all add: word_value_less)
  define C where "C = (\<lambda>k. if k < 2 * nat ic then binaryToBase64 (?cb (k div 2)) ! (k mod 2)
               else if k = 2 * nat ic \<and> 0 < nat ic then NUL else codeImage64 arrs k)"
  define D where "D = (\<lambda>k. if k < 2 * nat dc then binaryToBase64 (?db (k div 2)) ! (k mod 2)
               else if k = 2 * nat dc \<and> 0 < nat dc then NUL else dataImage64 arrs k)"
  have conv: "convertArrays ci di arrs tbl ic dc = Inr (\<lparr>codeImageBinary = ?cb, dataImageBinary = ?db,
      codeImage64 = C(2 * nat ic := NUL), dataImage64 = D(2 * nat dc := NUL)\<rparr>, os2\<lparr>stdOut := out4\<rparr>)"
    using b3 b4 unfolding C_def [symmetric] D_def [symmetric]
    by (simp add: convertArrays_def ul b1 b2 w arr_upd_mem)
  have c: "C (2 * k) = base64Chars ! (word_value (ci k) div 64)"
      "C (2 * k + 1) = base64Chars ! (word_value (ci k) mod 64)" if "k < nat ic" for k
    using that binaryToBase64_of_nat [OF v(1)] by (simp_all add: C_def)
  have d: "D (2 * k) = base64Chars ! (word_value (di k) div 64)"
      "D (2 * k + 1) = base64Chars ! (word_value (di k) mod 64)" if "k < nat dc" for k
    using that binaryToBase64_of_nat [OF v(2)] by (simp_all add: D_def)
  show ?thesis using conv c d by simp
qed


theorem convertArrays_encodes_witness:
  "\<exists>arrs' os. convertArrays (\<lambda>_. \<lparr>label = \<lparr>name = [], address = 0, isExternal = False, isEntry = False, isData = False\<rparr>,
      isLabel = False, wordType = DATA_WORD_TYPE, word = 0, line_number = 1\<rparr>)
    (\<lambda>_. \<lparr>label = \<lparr>name = [], address = 0, isExternal = False, isEntry = False, isData = False\<rparr>,
      isLabel = False, wordType = DATA_WORD_TYPE, word = 0, line_number = 1\<rparr>)
    \<lparr>codeImageBinary = \<lambda>_. 0, dataImageBinary = \<lambda>_. 0, codeImage64 = \<lambda>_. NUL, dataImage64 = \<lambda>_. NUL\<rparr>
    [] 1 1 = Inr (arrs', os) \<and> codeImage64 arrs' 0 = CHR ''A'' \<and> codeImage64 arrs' 1 = CHR ''A''
    \<and> codeImage64 arrs' 2 = NUL"
proof -
  have v: "word_value \<lparr>label = \<lparr>name = [], address = 0, isExternal = False, isEntry = False, isData = False\<rparr>,
      isLabel = False, wordType = DATA_WORD_TYPE, word = 0, line_number = 1\<rparr> = 0"
    by (simp add: word_value_def get_field_def)
  have "base64Chars ! 0 = CHR ''A''" by (simp add: base64Chars_def)
  with convertArrays_encodes [of 1 1 "\<lambda>_. \<lparr>label = \<lparr>name = [], address = 0, isExternal = False, isEntry = False, isData = False\<rparr>,
      isLabel = False, wordType = DATA_WORD_TYPE, word = 0, line_number = 1\<rparr>"
      "\<lambda>_. \<lparr>label = \<lparr>name = [], address = 0, isExternal = False, isEntry = False, isData = False\<rparr>,
      isLabel = False, wordType = DATA_WORD_TYPE, word = 0, line_number = 1\<rparr>"
      "\<lparr>codeImageBinary = \<lambda>_. 0, dataImageBinary = \<lambda>_. 0, codeImage64 = \<lambda>_. NUL, dataImage64 = \<lambda>_. NUL\<rparr>" "[]"] v
  show ?thesis by auto
qed

lemma read_cstr_upto:
  assumes "m < n" "a m = NUL" "\<forall>k. i \<le> k \<and> k < m \<longrightarrow> a k \<noteq> NUL" "i \<le> m"
  shows "read_cstr a n i = Inr (map a [i..<m])"
  using assms
proof (induction "m - i" arbitrary: i)
  case 0
  then show ?case by (subst read_cstr.simps) simp
next
  case (Suc d)
  then have "read_cstr a n (Suc i) = Inr (map a [Suc i..<m])" by simp
  moreover have "[i..<m] = i # [Suc i..<m]" using Suc.hyps(2) by (simp add: upt_conv_Cons)
  ultimately show ?case using Suc.prems Suc.hyps(2) by (subst read_cstr.simps) simp
qed

lemma obj_lines_read:
  "\<forall>i\<in>set xs. 0 \<le> i \<and> read_cstr a (nat MAX_MEMORY_SPACE) (nat i) = Inr (f (nat i)) \<Longrightarrow>
   obj_lines a addr xs = Inr (concat (map (\<lambda>i. show_int (addr i) @ [CHR '':'', CHR 0x09, CHR '' '']
     @ f (nat i) @ [CHR 0x0A]) xs))"
  by (induction xs) simp_all

lemma b64_text:
  assumes "b64_loop bin (map int [0..<n]) (a, out) = Inr (a', out')" "n \<le> 511"
  shows "\<forall>k < 2 * n. a' k = binaryToBase64 (bin (k div 2)) ! (k mod 2)"
  using b64_loop_upto [OF assms(2), of bin a out] assms(1) by auto

lemma convertArrays_text:
  assumes "convertArrays ci di arrs tbl ic dc = Inr (arrs', os)"
  shows "(\<forall>k < 2 * nat ic. codeImage64 arrs' k = binaryToBase64 (codeImageBinary arrs' (k div 2)) ! (k mod 2))
    \<and> codeImage64 arrs' (2 * nat ic) = NUL
    \<and> (\<forall>k < 2 * nat dc. dataImage64 arrs' k = binaryToBase64 (dataImageBinary arrs' (k div 2)) ! (k mod 2))
    \<and> dataImage64 arrs' (2 * nat dc) = NUL"
proof -
  have r: "0 \<le> ic" "ic \<le> 511" "0 \<le> dc" "dc \<le> 511"
    using convertArrays_range [OF assms] by simp_all
  then have ul: "[0..ic - 1] = map int [0..<nat ic]" "[0..dc - 1] = map int [0..<nat dc]"
    using upto_map_int [of "nat ic"] upto_map_int [of "nat dc"] by simp_all
  from assms obtain cb db s3 c64 out3 d64 out4 where
    l3: "b64_loop cb (map int [0..<nat ic]) (codeImage64 arrs, s3) = Inr (c64, out3)" and
    l4: "b64_loop db (map int [0..<nat dc]) (dataImage64 arrs, out3) = Inr (d64, out4)" and
    a: "arrs' = \<lparr>codeImageBinary = cb, dataImageBinary = db, codeImage64 = c64(nat ic * 2 := NUL),
               dataImage64 = d64(nat dc * 2 := NUL)\<rparr>"
    unfolding convertArrays_def ul using r
    by (auto simp: cbind_eq_Inr arr_upd_mem nat_mult_distrib MAX_MEMORY_SPACE_def split: prod.splits)
  show ?thesis
  proof -
    have e: "nat ic * 2 = 2 * nat ic" "nat dc * 2 = 2 * nat dc" by simp_all
    show ?thesis using b64_text [OF l3] b64_text [OF l4] r by (simp add: a e nat_le_iff)
  qed
qed


lemma obj_lines_text:
  assumes "a m = NUL" "m < nat MAX_MEMORY_SPACE" "\<forall>k<m. a k \<noteq> NUL" "n \<le> m"
  shows "obj_lines a addr (map int [0..<n]) = Inr (concat (map (\<lambda>i. show_int (addr (int i))
    @ [CHR '':'', CHR 0x09, CHR '' ''] @ map a [i..<m] @ [CHR 0x0A]) [0..<n]))"
proof -
  have "\<forall>i\<in>set (map int [0..<n]). 0 \<le> i \<and> read_cstr a (nat MAX_MEMORY_SPACE) (nat i) = Inr (map a [nat i..<m])"
    using assms by (auto intro: read_cstr_upto)
  from obj_lines_read [OF this, of addr] show ?thesis by (simp add: o_def)
qed

lemma b64_text_no_nul: "binaryToBase64 w ! (k mod 2) \<noteq> NUL"
  using binaryToBase64_chars(2,3) [of w] by (cases "k mod 2 = 0") (simp_all add: mod2_eq_if)

lemma generateOutputFileNames_distinct:
  "generateOutputFileNames f = Some (en, ex, ob) \<Longrightarrow> ob \<noteq> ex \<and> ob \<noteq> en"
  by (auto simp: generateOutputFileNames_def MAX_FILE_NAME_LENGTH_def Let_def split: option.splits if_splits)

lemma writeFiles_frame:
  "writeFiles can_open f ci di arrs tbl ic dc fs = Inr (fs', arrs', out) \<Longrightarrow>
   generateOutputFileNames f = Some (en, ex, ob) \<Longrightarrow> n \<notin> {en, ex, ob} \<Longrightarrow> fs' n = fs n"
  by (auto simp: writeFiles_def cbind_eq_Inr Let_def split_beta split: if_splits)

text \<open>
  C27.  The object file \<^verbatim>\<open>writeFiles\<close> writes holds the line \<open>IC DC\<close> and then, for
  word \<open>i\<close>, the address \<open>i\<close> and the text of the code array from character \<open>i\<close> to
  the NUL at \<open>2 * IC\<close>: the whole rest of the code text, not the two characters of word
  \<open>i\<close>, which start at \<open>2 * i\<close>.  Data lines are numbered from \<open>IC\<close> the same way.
\<close>

theorem writeFiles_obj:
  assumes w: "writeFiles can_open fname ci di arrs tbl ic dc fs = Inr (fs', arrs', out)"
    and n: "generateOutputFileNames fname = Some (ent, ext, obj)"
    and o: "can_open obj" "can_open ext" "can_open ent"
  shows "fs' obj = Some (show_int ic @ '' '' @ show_int dc @ [CHR 0x0A]
    @ concat (map (\<lambda>i. show_int (int i) @ [CHR '':'', CHR 0x09, CHR '' '']
                         @ map (codeImage64 arrs') [i..<2 * nat ic] @ [CHR 0x0A]) [0..<nat ic])
    @ concat (map (\<lambda>i. show_int (ic + int i) @ [CHR '':'', CHR 0x09, CHR '' '']
                         @ map (dataImage64 arrs') [i..<2 * nat dc] @ [CHR 0x0A]) [0..<nat dc]))"
proof -
  from w n o obtain os cl dl where
    c: "convertArrays ci di arrs tbl ic dc = Inr (arrs', os)" and
    l1: "obj_lines (codeImage64 arrs') (\<lambda>i. i) [0..ic - 1] = Inr cl" and
    l2: "obj_lines (dataImage64 arrs') (\<lambda>i. ic + i) [0..dc - 1] = Inr dl" and
    f: "fs' obj = Some (show_int ic @ '' '' @ show_int dc @ [CHR 0x0A] @ cl @ dl)"
    using generateOutputFileNames_distinct [OF n]
    by (auto simp: writeFiles_def cbind_eq_Inr Let_def split_beta)
  have r: "0 \<le> ic" "ic \<le> 511" "0 \<le> dc" "dc \<le> 511" using convertArrays_range [OF c] by simp_all
  then have ul: "[0..ic - 1] = map int [0..<nat ic]" "[0..dc - 1] = map int [0..<nat dc]"
    using upto_map_int [of "nat ic"] upto_map_int [of "nat dc"] by simp_all
  have t: "\<forall>k<2 * nat ic. codeImage64 arrs' k \<noteq> NUL" "codeImage64 arrs' (2 * nat ic) = NUL"
    "\<forall>k<2 * nat dc. dataImage64 arrs' k \<noteq> NUL" "dataImage64 arrs' (2 * nat dc) = NUL"
    using convertArrays_text [OF c] by (simp_all add: b64_text_no_nul)
  have m: "2 * nat ic < nat MAX_MEMORY_SPACE" "2 * nat dc < nat MAX_MEMORY_SPACE"
    using r by (simp_all add: MAX_MEMORY_SPACE_def)
  show ?thesis
    using f l1 l2 obj_lines_text [OF t(2) m(1) t(1), of "nat ic" "\<lambda>i. i"]
      obj_lines_text [OF t(4) m(2) t(3), of "nat dc" "\<lambda>i. ic + i"]
    by (simp add: ul)
qed


theorem writeFiles_obj_witness:
  "\<exists>fs' arrs' out. writeFiles (\<lambda>_. True) ''output.am''
    (\<lambda>_. \<lparr>label = \<lparr>name = [], address = 0, isExternal = False, isEntry = False, isData = False\<rparr>,
      isLabel = False, wordType = DATA_WORD_TYPE, word = 0, line_number = 1\<rparr>)
    (\<lambda>_. \<lparr>label = \<lparr>name = [], address = 0, isExternal = False, isEntry = False, isData = False\<rparr>,
      isLabel = False, wordType = DATA_WORD_TYPE, word = 0, line_number = 1\<rparr>)
    \<lparr>codeImageBinary = \<lambda>_. 0, dataImageBinary = \<lambda>_. 0, codeImage64 = \<lambda>_. NUL, dataImage64 = \<lambda>_. NUL\<rparr>
    [] 2 1 Map.empty = Inr (fs', arrs', out)
   \<and> fs' ''output.obj'' = Some (''2 1'' @ [CHR 0x0A] @ ''0:'' @ [CHR 0x09] @ '' AAAA'' @ [CHR 0x0A]
        @ ''1:'' @ [CHR 0x09] @ '' AAA'' @ [CHR 0x0A] @ ''2:'' @ [CHR 0x09] @ '' AA'' @ [CHR 0x0A])"
proof -
  obtain X where r: "writeFiles (\<lambda>_. True) ''output.am''
    (\<lambda>_. \<lparr>label = \<lparr>name = [], address = 0, isExternal = False, isEntry = False, isData = False\<rparr>,
      isLabel = False, wordType = DATA_WORD_TYPE, word = 0, line_number = 1\<rparr>)
    (\<lambda>_. \<lparr>label = \<lparr>name = [], address = 0, isExternal = False, isEntry = False, isData = False\<rparr>,
      isLabel = False, wordType = DATA_WORD_TYPE, word = 0, line_number = 1\<rparr>)
    \<lparr>codeImageBinary = \<lambda>_. 0, dataImageBinary = \<lambda>_. 0, codeImage64 = \<lambda>_. NUL, dataImage64 = \<lambda>_. NUL\<rparr>
    [] 2 1 Map.empty = Inr X"
    by (simp add: c_eval get_field_def upto.simps show_nat.simps MAX_MEMORY_SPACE_def read_cstr.simps)
  obtain fs' arrs' out where x: "X = (fs', arrs', out)" by (cases X) auto
  have n: "generateOutputFileNames ''output.am'' = Some (''output.ent'', ''output.ext'', ''output.obj'')"
    by (simp add: c_eval)
  have c: "codeImage64 arrs' = (\<lambda>_. NUL)(0 := CHR ''A'', 1 := CHR ''A'', 2 := CHR ''A'', 3 := CHR ''A'', 4 := NUL)"
    "dataImage64 arrs' = (\<lambda>_. NUL)(0 := CHR ''A'', 1 := CHR ''A'', 2 := NUL)"
    using r unfolding x by (auto simp: c_eval get_field_def upto.simps show_nat.simps MAX_MEMORY_SPACE_def read_cstr.simps)
  from writeFiles_obj [OF r [unfolded x] n] r c show ?thesis
    unfolding x by (simp add: upt_rec c_eval show_nat.simps)
qed

text \<open>
  C28.  \<^verbatim>\<open>writeLabelFiles\<close> appends one line \<open>name address\<close> per entry label to the
  entry text and one per external label that is not an entry to the extern text, in
  table order.
\<close>

theorem writeLabelFiles_split:
  "writeLabelFiles tbl (en, ex) =
     (en @ concat (map (\<lambda>l. name l @ '' '' @ show_int (address l) @ [CHR 0x0A]) (filter isEntry tbl)),
      ex @ concat (map (\<lambda>l. name l @ '' '' @ show_int (address l) @ [CHR 0x0A])
                    (filter (\<lambda>l. \<not> isEntry l \<and> isExternal l) tbl)))"
  by (induction tbl arbitrary: en ex) simp_all

text \<open>
  C29.  A label word is always serialized as 0, whether or not its name is found; with
  the empty label table every run has, it writes nothing to the label files and prints
  the \<open>Invalid label name\<close> diagnostic.
\<close>

theorem convertToBinary_label_word:
  "isLabel mw \<Longrightarrow> convertToBinary mw tbl ln = Inr (b, ex, en, out) \<Longrightarrow>
   b = 0 \<and> (tbl = [] \<longrightarrow> ex = [] \<and> en = [] \<and>
                 out = ''Error found at line #'' @ show_int ln @ '': Invalid label name.'' @ [CHR 0x0A])"
  by (auto simp: convertToBinary_def cbind_eq_Inr findLabel_def Let_def split: if_splits)

theorem convertToBinary_label_word_witness:
  "convertToBinary \<lparr>label = \<lparr>name = ''L'' @ [NUL], address = 0, isExternal = False, isEntry = False, isData = False\<rparr>,
      isLabel = True, wordType = DATA_WORD_TYPE, word = 0, line_number = 1\<rparr> [] 3
     = Inr (0, [], [], ''Error found at line #3: Invalid label name.'' @ [CHR 0x0A])"
proof -
  have r: "convertToBinary \<lparr>label = \<lparr>name = ''L'' @ [NUL], address = 0, isExternal = False, isEntry = False, isData = False\<rparr>,
      isLabel = True, wordType = DATA_WORD_TYPE, word = 0, line_number = 1\<rparr> [] 3
     = Inr (0, [], [], ''Error found at line #3: Invalid label name.'' @ [CHR 0x0A])"
    by (simp add: c_eval show_nat.simps findLabel_def)
  from convertToBinary_label_word [OF _ r] r show ?thesis by simp
qed

lemma strrchr_am:
  "NUL \<notin> set base \<Longrightarrow> strrchr (base @ ''.am'') (CHR ''.'') = Some (length base)"
  by (simp add: strrchr_def)

text \<open>
  C30.  For an input name \<open>base.am\<close> with \<open>base\<close> shorter than 72 characters the
  output names are \<open>base.ent\<close>, \<open>base.ext\<close> and \<open>base.obj\<close>.
\<close>

theorem generateOutputFileNames_am:
  "NUL \<notin> set base \<Longrightarrow> length base < 72 \<Longrightarrow>
   generateOutputFileNames (base @ ''.am'') = Some (base @ ''.ent'', base @ ''.ext'', base @ ''.obj'')"
  by (simp add: generateOutputFileNames_def strrchr_am MAX_FILE_NAME_LENGTH_def)

theorem generateOutputFileNames_am_witness:
  "generateOutputFileNames ''output.am'' = Some (''output.ent'', ''output.ext'', ''output.obj'')"
  using generateOutputFileNames_am [of "''output''"] by simp

lemma bin_digit: "i < 16 \<Longrightarrow> ((ucast n :: 32 word) AND 2 ^ i \<noteq> 0) = bit (unat (n :: 16 word)) i"
  by (simp add: and_exp_eq_0_iff_not_bit bit_unsigned_iff bit_ucast_iff)

lemma foldl_bits:
  "foldl (\<lambda>acc c. 2 * acc + (if c = CHR ''1'' then 1 else 0)) a
     (map (\<lambda>i. if bit (m :: nat) i then CHR ''1'' else CHR ''0'') (rev [0..<k])) = a * 2 ^ k + m mod 2 ^ k"
proof (induction k arbitrary: a)
  case (Suc k)
  have "m mod 2 ^ Suc k = 2 ^ k * of_bool (bit m k) + m mod 2 ^ k"
    by (metis take_bit_Suc_from_most take_bit_nat_def)
  with Suc show ?case by (simp add: algebra_simps)
qed simp

text \<open>
  The twelve digits \<^verbatim>\<open>printBinaryRepresentation\<close> prints, read as a binary
  numeral, are the value modulo 4096.
\<close>

theorem printBinaryRepresentation_roundtrip:
  "bin_val (take 12 (printBinaryRepresentation n)) = unat n mod 4096"
proof -
  have "take 12 (printBinaryRepresentation n)
      = map (\<lambda>i. if bit (unat n) i then CHR ''1'' else CHR ''0'') (rev [0..<12])"
    by (auto simp: printBinaryRepresentation_def bin_digit)
  then show ?thesis using foldl_bits [of 0 "unat n" 12] by (simp add: bin_val_def)
qed

end
