(* ===== verification/Preprocessor.thy ===== *)
theory Preprocessor
  imports Types
begin

text \<open>
  The macro preprocessor of \<^verbatim>\<open>src/preprocessor.c\<close> and \<^verbatim>\<open>preprocessor.h\<close>: the
  macro table (\<^verbatim>\<open>initializeMacroTable\<close>, \<^verbatim>\<open>findMacro\<close>, \<^verbatim>\<open>addMacro\<close>,
  \<^verbatim>\<open>freeMacroTable\<close>), \<^verbatim>\<open>trimWhitespace\<close>, \<^verbatim>\<open>isValidMacroName\<close>, and
  \<^verbatim>\<open>processSourceFile\<close>, whose loop body is split into the four steps it takes on a
  line: the start of a definition, its end, a line inside it, and a call or a plain line.
  The table keeps its first \<^verbatim>\<open>count\<close> entries as a list, the field
  \<^verbatim>\<open>capacity\<close>, and the number of entries the heap block really holds
  (\<open>alloc\<close>), which \<^verbatim>\<open>realloc\<close> sets.  Locals the C code reads before it writes
  them (\<^verbatim>\<open>macroName\<close>, \<^verbatim>\<open>trimmedLine\<close>) are \<open>None\<close> until written; reading
  \<open>None\<close> is undefined behaviour.  \<^verbatim>\<open>malloc\<close> and \<^verbatim>\<open>realloc\<close> are assumed to
  succeed.
\<close>

section \<open>Definitions\<close>

definition LENGTH_OF_MCRO :: nat where
  "LENGTH_OF_MCRO = 4"

definition MAX_LINE_LEN :: nat where
  "MAX_LINE_LEN = 81"

record Macro =
  mname :: "char list"
  content :: "char list"

record MacroTable =
  macros :: "Macro list"
  capacity :: nat
  alloc :: nat

text \<open>\<^verbatim>\<open>initializeMacroTable\<close>: no macros, room for ten.\<close>

definition initializeMacroTable :: MacroTable where
  "initializeMacroTable = \<lparr>macros = [], capacity = 10, alloc = 10\<rparr>"

text \<open>\<^verbatim>\<open>freeMacroTable\<close> frees the block: nothing of it may be used afterwards.\<close>

definition freeMacroTable :: "MacroTable \<Rightarrow> MacroTable" where
  "freeMacroTable t = t\<lparr>alloc := 0\<rparr>"

text \<open>
  \<^verbatim>\<open>trimWhitespace\<close> as the C code computes it: the index \<open>start\<close> of the first
  and \<open>end\<close> of the last character that is not a space, and the
  \<open>newLength = end - start + 1\<close> characters from \<open>start\<close>, none when it is negative.
\<close>

definition trimWhitespace :: "char list \<Rightarrow> char list" where
  "trimWhitespace str =
     (let len = int (length str);
          start = int (length (takeWhile isspace str));
          end = len - 1 - int (length (takeWhile isspace (rev str)));
          newLength = max 0 (end - start + 1) in
      take (nat newLength) (drop (nat start) str))"

text \<open>The loop of \<^verbatim>\<open>findMacro\<close>: the first index whose name compares equal.\<close>

fun find_macro_idx :: "Macro list \<Rightarrow> char list \<Rightarrow> int \<Rightarrow> int" where
  "find_macro_idx [] t i = -1"
| "find_macro_idx (m # ms) t i = (if mname m = t then i else find_macro_idx ms t (i + 1))"

text \<open>
  \<^verbatim>\<open>findMacro\<close> copies the name into a local of \<^verbatim>\<open>MAX_LINE_LEN\<close> bytes
  (undefined behaviour for a longer name), trims it and searches the table.
\<close>

definition findMacro :: "MacroTable \<Rightarrow> char list \<Rightarrow> int cres" where
  "findMacro table nm =
     (if MAX_LINE_LEN \<le> length (cstr nm) then Inl Undefined_behaviour
      else Inr (find_macro_idx (macros table) (trimWhitespace (cstr nm)) 0))"

definition reserved :: "char list list" where
  "reserved = [''.'', ''lea'', ''sub'', ''add'', ''cmp'', ''mov'', ''not'', ''clr'', ''inc'', ''dec'',
               ''jmp'', ''bne'', ''red'', ''prn'', ''jsr'', ''stop'', ''rts'']"

definition isValidMacroName :: "char list \<Rightarrow> bool" where
  "isValidMacroName nm \<longleftrightarrow> peek nm \<noteq> CHR ''.'' \<and> cstr nm \<notin> set reserved"

text \<open>
  \<^verbatim>\<open>addMacro\<close>: the block is reallocated to \<^verbatim>\<open>capacity\<close> entries before the
  capacity is doubled, so when the table is full the new entry is written one past the
  block.  A \<open>NULL\<close> content (\<open>None\<close>) reaches \<^verbatim>\<open>strlen\<close>.  A name already present
  leaves the table as it is.
\<close>

definition addMacro :: "MacroTable \<Rightarrow> char list \<Rightarrow> char list option \<Rightarrow> MacroTable cres" where
  "addMacro table nm cont =
     cbind (findMacro table nm) (\<lambda>index.
       (let table1 = table\<lparr>alloc := capacity table\<rparr> in
        if index = -1 then
          (let table2 = (if length (macros table1) = capacity table1
                         then table1\<lparr>capacity := 2 * capacity table1\<rparr> else table1) in
           if alloc table2 \<le> length (macros table2) then Inl Undefined_behaviour
           else (case cont of
                   None \<Rightarrow> Inl Undefined_behaviour
                 | Some c \<Rightarrow> Inr (table2\<lparr>macros := macros table2 @ [\<lparr>mname = cstr nm, content = cstr c\<rparr>]\<rparr>)))
        else Inr table1))"

text \<open>\<^verbatim>\<open>strstr(s, p) != NULL\<close> on a C string.\<close>

fun strstr :: "char list \<Rightarrow> char list \<Rightarrow> bool" where
  "strstr [] p = (p = [])"
| "strstr (c # s) p = (take (length p) (c # s) = p \<or> strstr s p)"

text \<open>
  \<^verbatim>\<open>sscanf(s, "%s", buf)\<close>: the first word after leading white space, or \<open>None\<close>
  when there is none (the buffer is then left as it was).
\<close>

definition scan_word :: "char list \<Rightarrow> char list option" where
  "scan_word s = (let t = dropWhile isspace (cstr s) in
                  if t = [] then None else Some (takeWhile (\<lambda>c. \<not> isspace c) t))"

text \<open>\<^verbatim>\<open>strspn(line, "\t\n\r\f\v")\<close>: a blank space is not in the set.\<close>

definition strspn_blank :: "char list \<Rightarrow> nat" where
  "strspn_blank s = length (takeWhile (\<lambda>c. c \<in> set [CHR 0x09, CHR 0x0A, CHR 0x0D, CHR 0x0C, CHR 0x0B]) s)"

text \<open>The locals of \<^verbatim>\<open>processSourceFile\<close> that live across lines, and the output.\<close>

record pp_state =
  isInsideMacro :: bool
  macroName :: "char list option"
  macroContent :: "char list option"
  trimmedLine :: "char list option"
  table :: MacroTable
  outputFile :: "char list"

text \<open>
  A line containing \<open>mcro\<close> but not \<open>endmcro\<close>: the word at offset
  \<^verbatim>\<open>LENGTH_OF_MCRO\<close> of the line becomes \<^verbatim>\<open>macroName\<close>; a valid new name starts
  a definition and the line is consumed (\<open>True\<close>).  Otherwise the line goes on to the
  next tests.
\<close>

definition mcro_start :: "char list \<Rightarrow> pp_state \<Rightarrow> (bool \<times> pp_state) cres" where
  "mcro_start line s =
     (if strstr line ''mcro'' \<and> \<not> strstr line ''endmcro'' then
        (let s1 = s\<lparr>macroName := (case scan_word (drop LENGTH_OF_MCRO line) of
                                     None \<Rightarrow> macroName s | Some w \<Rightarrow> Some w)\<rparr> in
         case macroName s1 of
           None \<Rightarrow> Inl Undefined_behaviour
         | Some n \<Rightarrow>
             if isValidMacroName n then
               cbind (findMacro (table s1) n) (\<lambda>i.
                 if i = -1 then Inr (True, s1\<lparr>isInsideMacro := True\<rparr>) else Inr (False, s1))
             else Inr (False, s1))
      else Inr (False, s))"

text \<open>The end of a definition: the collected content is added under \<^verbatim>\<open>macroName\<close>.\<close>

definition mcro_end :: "pp_state \<Rightarrow> pp_state cres" where
  "mcro_end s =
     (case macroName s of
        None \<Rightarrow> Inl Undefined_behaviour
      | Some n \<Rightarrow>
          cbind (findMacro (table s) n) (\<lambda>i.
            cbind (if i = -1 then addMacro (table s) n (macroContent s) else Inr (table s)) (\<lambda>t.
              Inr (s\<lparr>isInsideMacro := False, table := t, macroContent := None\<rparr>))))"

text \<open>
  A line that is neither: its first word goes to \<^verbatim>\<open>trimmedLine\<close> (kept from an
  earlier line when it has none); the content of a macro of that name is written,
  otherwise the line.
\<close>

definition macro_call :: "char list \<Rightarrow> pp_state \<Rightarrow> pp_state cres" where
  "macro_call line s =
     (let s1 = s\<lparr>trimmedLine := (case scan_word line of None \<Rightarrow> trimmedLine s | Some w \<Rightarrow> Some w)\<rparr> in
      case trimmedLine s1 of
        None \<Rightarrow> Inl Undefined_behaviour
      | Some w \<Rightarrow>
          cbind (findMacro (table s1) w) (\<lambda>i.
            if i \<noteq> -1 then
              (if 0 \<le> i \<and> i < int (length (macros (table s1)))
               then Inr (s1\<lparr>outputFile := outputFile s1 @ content (macros (table s1) ! nat i)\<rparr>)
               else Inr s1)
            else Inr (s1\<lparr>outputFile := outputFile s1 @ line\<rparr>)))"

text \<open>
  One pass of the loop of \<^verbatim>\<open>processSourceFile\<close>: the line is cut at its first
  \<open>;\<close> (the newline after it goes too), skipped when it consists of the characters of
  \<^verbatim>\<open>strspn\<close>'s set only, and then handled by the first step that applies.
\<close>

definition pp_step :: "char list \<Rightarrow> pp_state \<Rightarrow> pp_state cres" where
  "pp_step line0 s =
     (let line = takeWhile (\<lambda>c. c \<noteq> CHR '';'') (cstr line0) in
      if strspn_blank line = length line then Inr s
      else cbind (mcro_start line s) (\<lambda>(cont, s1).
        if cont then Inr s1
        else if strstr line ''endmcro'' \<and> isInsideMacro s1 then mcro_end s1
        else if isInsideMacro s1 then
          Inr (s1\<lparr>macroContent := Some ((case macroContent s1 of None \<Rightarrow> [] | Some c \<Rightarrow> c) @ line)\<rparr>)
        else macro_call line s1))"

fun pp_loop :: "char list list \<Rightarrow> pp_state \<Rightarrow> pp_state cres" where
  "pp_loop [] s = Inr s"
| "pp_loop (l # ls) s = cbind (pp_step l s) (pp_loop ls)"

definition pp_init :: "MacroTable \<Rightarrow> pp_state" where
  "pp_init t = \<lparr>isInsideMacro = False, macroName = None, macroContent = None, trimmedLine = None,
                table = t, outputFile = []\<rparr>"

text \<open>
  \<^verbatim>\<open>processSourceFile\<close>: both files are opened first (the output is truncated
  whenever it can be opened); if either fails the function returns.  The result is the
  new file system and the macro table.
\<close>

definition processSourceFile ::
  "(char list \<Rightarrow> bool) \<Rightarrow> fsys \<Rightarrow> char list \<Rightarrow> char list \<Rightarrow> MacroTable \<Rightarrow> (fsys \<times> MacroTable) cres" where
  "processSourceFile can_open fsy src out t =
     (let fsy1 = (if can_open out then fsy(out \<mapsto> []) else fsy) in
      case fsy src of
        None \<Rightarrow> Inr (fsy1, t)
      | Some txt \<Rightarrow>
          if \<not> can_open out then Inr (fsy1, t)
          else cbind (pp_loop (fgets_lines txt) (pp_init t)) (\<lambda>s.
                 Inr (fsy1(out \<mapsto> outputFile s), table s)))"

text \<open>
  The abstraction of the macro table: the map from names to bodies that a lookup from the
  first entry sees, and the invariant \<^verbatim>\<open>addMacro\<close> is meant to keep.
\<close>

definition macro_map :: "MacroTable \<Rightarrow> char list \<Rightarrow> char list option" where
  "macro_map t = map_of (map (\<lambda>m. (mname m, content m)) (macros t))"

definition table_ok :: "MacroTable \<Rightarrow> bool" where
  "table_ok t \<longleftrightarrow> alloc t = capacity t \<and> length (macros t) \<le> capacity t"

text \<open>
  Well-formedness of the names: a macro name is a word of \<^verbatim>\<open>sscanf\<close>'s
  \<open>%s\<close> that fits a line buffer, the names of the table are distinct, and the
  \<^verbatim>\<open>macroName\<close> local, once set, holds such a word.
\<close>

definition word_ok :: "char list \<Rightarrow> bool" where
  "word_ok w \<longleftrightarrow> w \<noteq> [] \<and> length w < MAX_LINE_LEN \<and> (\<forall>c \<in> set w. c \<noteq> NUL \<and> \<not> isspace c)"

definition macro_names_ok :: "MacroTable \<Rightarrow> bool" where
  "macro_names_ok t \<longleftrightarrow> distinct (map mname (macros t)) \<and> (\<forall>m \<in> set (macros t). word_ok (mname m))"

definition pp_names_ok :: "pp_state \<Rightarrow> bool" where
  "pp_names_ok s \<longleftrightarrow> macro_names_ok (table s) \<and> pred_option word_ok (macroName s)"

lemmas preprocessor_eval [c_eval] = LENGTH_OF_MCRO_def MAX_LINE_LEN_def initializeMacroTable_def
  trimWhitespace_def findMacro_def reserved_def isValidMacroName_def addMacro_def scan_word_def
  strspn_blank_def mcro_start_def mcro_end_def macro_call_def pp_step_def pp_init_def
  processSourceFile_def

section \<open>Lemmas\<close>

lemma rev_dropWhile_rev:
  "rev (dropWhile P (rev m)) = take (length m - length (takeWhile P (rev m))) m"
proof -
  have "rev m = takeWhile P (rev m) @ dropWhile P (rev m)" by simp
  then have "m = rev (dropWhile P (rev m)) @ rev (takeWhile P (rev m))"
    by (metis rev_append rev_rev_ident)
  then show ?thesis
    by (metis append_eq_conv_conj length_append length_rev add_diff_cancel_right')
qed

text \<open>
  C33.  \<^verbatim>\<open>trimWhitespace\<close>, which works with a start index, an end index and
  a length, removes exactly the leading and the trailing \<^verbatim>\<open>isspace\<close> characters:
  it equals the reference definition that drops them from both ends.
\<close>

theorem trimWhitespace_spec: "trimWhitespace s = rev (dropWhile isspace (rev (dropWhile isspace s)))"
proof -
  define m where "m = dropWhile isspace s"
  have s: "s = takeWhile isspace s @ m" by (simp add: m_def)
  show ?thesis
  proof (cases "m = []")
    case True
    then have "length (takeWhile isspace (rev s)) = length s"
      using s by (metis append_Nil2 length_rev rev_rev_ident takeWhile_eq_all_conv set_takeWhileD set_rev)
    with True show ?thesis by (simp add: trimWhitespace_def Let_def m_def [symmetric])
  next
    case False
    then have h: "\<not> isspace (hd m)" by (simp add: m_def hd_dropWhile)
    have "takeWhile isspace (rev s) = takeWhile isspace (rev m)"
    proof -
      have "\<exists>x \<in> set (rev m). \<not> isspace x" using False h by (metis hd_in_set set_rev)
      then show ?thesis using s by (metis rev_append takeWhile_append1)
    qed
    moreover have "length (takeWhile isspace (rev m)) \<le> length m"
      by (metis length_rev length_takeWhile_le)
    moreover have "length s = length (takeWhile isspace s) + length m" using s by (metis length_append)
    moreover have "drop (length (takeWhile isspace s)) s = m" by (simp add: m_def dropWhile_eq_drop)
    ultimately show ?thesis
      by (simp add: trimWhitespace_def Let_def rev_dropWhile_rev m_def [symmetric] nat_diff_distrib)
  qed
qed

lemma find_macro_idx_spec:
  "find_macro_idx ms t i = (if map_of (map (\<lambda>m. (mname m, content m)) ms) t = None then -1
     else i + int (length (takeWhile (\<lambda>m. mname m \<noteq> t) ms)))"
  by (induction ms arbitrary: i) auto

lemma map_of_takeWhile:
  "map_of (map (\<lambda>m. (mname m, content m)) ms) t \<noteq> None \<Longrightarrow>
   length (takeWhile (\<lambda>m. mname m \<noteq> t) ms) < length ms \<and>
   map_of (map (\<lambda>m. (mname m, content m)) ms) t = Some (content (ms ! length (takeWhile (\<lambda>m. mname m \<noteq> t) ms)))"
  by (induction ms) auto

text \<open>
  C34.  \<^verbatim>\<open>findMacro\<close> implements lookup in the macro table seen as a map from
  names to bodies (the first entry of a name wins): when it returns \<open>-1\<close> the trimmed
  name is not in the map, otherwise it returns a valid index whose body is the map's
  value for the trimmed name.
\<close>

theorem findMacro_refines:
  "findMacro t nm = Inr i \<Longrightarrow>
   (if i = -1 then macro_map t (trimWhitespace (cstr nm)) = None
    else 0 \<le> i \<and> nat i < length (macros t)
         \<and> macro_map t (trimWhitespace (cstr nm)) = Some (content (macros t ! nat i)))"
  using map_of_takeWhile [of "macros t" "trimWhitespace (cstr nm)"]
  by (auto simp: findMacro_def macro_map_def find_macro_idx_spec split: if_splits)

lemma findMacro_fresh:
  "findMacro t nm = Inr (-1) \<Longrightarrow> macro_map t (trimWhitespace (cstr nm)) = None"
  by (auto simp: findMacro_def macro_map_def find_macro_idx_spec split: if_splits)

text \<open>
  C35.  Insert, then lookup: after \<^verbatim>\<open>addMacro\<close> of a name that is not yet defined
  (and has no surrounding blanks), the table maps that name to the given body and every
  other name as before.
\<close>

theorem addMacro_lookup:
  assumes "addMacro t nm (Some c) = Inr t'" "findMacro t nm = Inr (-1)" "trimWhitespace (cstr nm) = cstr nm"
  shows "macro_map t' = (macro_map t)(cstr nm \<mapsto> cstr c)"
proof -
  have "macro_map t (cstr nm) = None" using findMacro_fresh [OF assms(2)] assms(3) by simp
  moreover have "macros t' = macros t @ [\<lparr>mname = cstr nm, content = cstr c\<rparr>]"
    using assms(1,2) by (auto simp: addMacro_def Let_def split: if_splits)
  ultimately show ?thesis by (auto simp: macro_map_def fun_eq_iff map_add_def split: option.splits)
qed

lemma addMacro_ok:
  "table_ok t \<Longrightarrow> addMacro t nm c = Inr t' \<Longrightarrow>
   table_ok t' \<and> capacity t' = capacity t \<and> length (macros t) \<le> length (macros t') \<and> length (macros t') \<le> length (macros t) + 1"
  by (auto simp: addMacro_def table_ok_def cbind_eq_Inr Let_def split: if_splits option.splits)

text \<open>
  C36.  \<^verbatim>\<open>addMacro\<close> on a full table has undefined behaviour: it doubles
  \<open>capacity\<close> but reallocates the array to the old capacity, so the new entry is written
  one past the end.  With an initial capacity of 10, the eleventh macro is undefined
  behaviour.
\<close>

theorem addMacro_full_UB:
  "table_ok t \<Longrightarrow> length (macros t) = capacity t \<Longrightarrow> findMacro t nm = Inr (-1) \<Longrightarrow>
   addMacro t nm c = Inl Undefined_behaviour"
  by (simp add: addMacro_def table_ok_def Let_def)

lemma mcro_start_table: "mcro_start line s = Inr (b, s') \<Longrightarrow> table s' = table s"
  by (auto simp: mcro_start_def cbind_eq_Inr Let_def split: if_splits option.splits)

lemma macro_call_table: "macro_call line s = Inr s' \<Longrightarrow> table s' = table s"
  by (auto simp: macro_call_def cbind_eq_Inr Let_def split: if_splits option.splits)

lemma mcro_end_ok:
  "table_ok (table s) \<Longrightarrow> mcro_end s = Inr s' \<Longrightarrow>
   table_ok (table s') \<and> capacity (table s') = capacity (table s)"
  by (auto simp: mcro_end_def cbind_eq_Inr split: if_splits option.splits dest: addMacro_ok)

lemma pp_step_cases:
  assumes "pp_step l s = Inr s'"
  obtains (blank) "s' = s"
  | (start) s1 where "mcro_start (takeWhile (\<lambda>c. c \<noteq> CHR '';'') (cstr l)) s = Inr (True, s1)" "s' = s1"
  | (finish) s1 where "mcro_start (takeWhile (\<lambda>c. c \<noteq> CHR '';'') (cstr l)) s = Inr (False, s1)"
      "mcro_end s1 = Inr s'"
  | (body) s1 where "mcro_start (takeWhile (\<lambda>c. c \<noteq> CHR '';'') (cstr l)) s = Inr (False, s1)"
      "s' = s1\<lparr>macroContent := Some ((case macroContent s1 of None \<Rightarrow> [] | Some c \<Rightarrow> c)
                 @ takeWhile (\<lambda>c. c \<noteq> CHR '';'') (cstr l))\<rparr>"
  | (call) s1 where "mcro_start (takeWhile (\<lambda>c. c \<noteq> CHR '';'') (cstr l)) s = Inr (False, s1)"
      "macro_call (takeWhile (\<lambda>c. c \<noteq> CHR '';'') (cstr l)) s1 = Inr s'"
  using assms by (auto simp: pp_step_def Let_def cbind_eq_Inr split: if_splits)

lemma pp_step_ok:
  assumes "table_ok (table s)" "pp_step l s = Inr s'"
  shows "table_ok (table s') \<and> capacity (table s') = capacity (table s)"
  using assms(2)
proof (cases rule: pp_step_cases)
  case blank
  then show ?thesis using assms(1) by simp
next
  case (start s1)
  then show ?thesis using assms(1) mcro_start_table [OF start(1)] by simp
next
  case (finish s1)
  then show ?thesis using assms(1) mcro_start_table [OF finish(1)] mcro_end_ok [of s1 s'] by simp
next
  case (body s1)
  then show ?thesis using assms(1) mcro_start_table [OF body(1)] by simp
next
  case (call s1)
  then show ?thesis using assms(1) mcro_start_table [OF call(1)] macro_call_table [OF call(2)] by simp
qed

lemma pp_loop_ok:
  "table_ok (table s) \<Longrightarrow> pp_loop ls s = Inr s' \<Longrightarrow>
   table_ok (table s') \<and> capacity (table s') = capacity (table s)"
proof (induction ls arbitrary: s)
  case (Cons l ls)
  then obtain s1 where "pp_step l s = Inr s1" "pp_loop ls s1 = Inr s'" by (auto simp: cbind_eq_Inr)
  with Cons.IH pp_step_ok [OF Cons.prems(1)] show ?case by fastforce
qed simp

text \<open>
  C37.  The macro table invariant (the allocation matches the capacity and the
  entries fit in it) holds throughout \<^verbatim>\<open>processSourceFile\<close>: every run that has defined
  behaviour ends with a table of capacity 10 holding at most 10 macros.
\<close>

theorem processSourceFile_table_bound:
  "processSourceFile can_open fsy src out initializeMacroTable = Inr (fsy', t) \<Longrightarrow>
   table_ok t \<and> capacity t = 10 \<and> length (macros t) \<le> 10"
proof -
  assume r: "processSourceFile can_open fsy src out initializeMacroTable = Inr (fsy', t)"
  have i: "table_ok (table (pp_init initializeMacroTable))" "capacity (table (pp_init initializeMacroTable)) = 10"
    by (simp_all add: pp_init_def initializeMacroTable_def table_ok_def)
  show ?thesis
  proof (cases "fsy src = None \<or> \<not> can_open out")
    case True
    with r have "t = initializeMacroTable"
      by (auto simp: processSourceFile_def Let_def split: option.splits)
    then show ?thesis by (simp add: initializeMacroTable_def table_ok_def)
  next
    case False
    with r obtain x where "pp_loop (fgets_lines (the (fsy src))) (pp_init initializeMacroTable) = Inr x" "t = table x"
      by (auto simp: processSourceFile_def Let_def cbind_eq_Inr)
    with pp_loop_ok [OF i(1)] i(2) show ?thesis by (fastforce simp: table_ok_def)
  qed
qed

lemma blank_isspace: "c \<in> set [CHR 0x09, CHR 0x0A, CHR 0x0D, CHR 0x0C, CHR 0x0B] \<Longrightarrow> isspace c"
  by (auto simp: isspace_def)

lemma scan_word_not_blank: "scan_word line = Some w \<Longrightarrow> NUL \<notin> set line \<Longrightarrow> strspn_blank line \<noteq> length line"
proof
  assume w: "scan_word line = Some w" and n: "NUL \<notin> set line" and b: "strspn_blank line = length line"
  let ?Q = "\<lambda>c. c \<in> set [CHR 0x09, CHR 0x0A, CHR 0x0D, CHR 0x0C, CHR 0x0B]"
  have "length (takeWhile ?Q line) + length (dropWhile ?Q line) = length line"
    by (metis length_append takeWhile_dropWhile_id)
  with b have "dropWhile ?Q line = []" by (simp add: strspn_blank_def)
  then have "\<forall>c \<in> set line. ?Q c" by (simp add: dropWhile_eq_Nil_conv)
  then have "dropWhile isspace line = []" by (auto simp: dropWhile_eq_Nil_conv blank_isspace)
  with w n show False by (simp add: scan_word_def)
qed

lemma scan_word_sub: "scan_word l = Some w \<Longrightarrow> set w \<subseteq> set (cstr l) \<and> length w \<le> length (cstr l)"
proof -
  assume "scan_word l = Some w"
  then have w: "w = takeWhile (\<lambda>c. \<not> isspace c) (dropWhile isspace (cstr l))"
    by (auto simp: scan_word_def Let_def split: if_splits)
  have "set w \<subseteq> set (cstr l)" unfolding w by (meson set_dropWhileD set_takeWhileD subsetI)
  moreover have "length w \<le> length (cstr l)"
    unfolding w by (metis length_dropWhile_le length_takeWhile_le order_trans)
  ultimately show ?thesis by blast
qed

lemma findMacro_empty:
  "macros t = [] \<Longrightarrow> length (cstr w) < MAX_LINE_LEN \<Longrightarrow> findMacro t w = Inr (-1)"
  by (simp add: findMacro_def)

lemma pp_step_plain:
  assumes "\<not> isInsideMacro s" and "\<not> strstr (takeWhile (\<lambda>c. c \<noteq> CHR '';'') (cstr l)) ''mcro''"
    and "scan_word (takeWhile (\<lambda>c. c \<noteq> CHR '';'') (cstr l)) = Some w"
    and "findMacro (table s) w = Inr (-1)"
  shows "pp_step l s = Inr (s\<lparr>trimmedLine := Some w,
           outputFile := outputFile s @ takeWhile (\<lambda>c. c \<noteq> CHR '';'') (cstr l)\<rparr>)"
proof -
  let ?line = "takeWhile (\<lambda>c. c \<noteq> CHR '';'') (cstr l)"
  have "NUL \<notin> set ?line" by (metis nul_notin_cstr set_takeWhileD)
  with assms(3) have "strspn_blank ?line \<noteq> length ?line" by (rule scan_word_not_blank)
  with assms show ?thesis
    by (simp add: pp_step_def mcro_start_def macro_call_def)
qed

lemma pp_loop_plain:
  "macros (table s) = [] \<Longrightarrow> \<not> isInsideMacro s \<Longrightarrow>
   \<forall>l \<in> set ls. length l < MAX_LINE_LEN \<and> NUL \<notin> set l \<and> CHR '';'' \<notin> set l \<and> \<not> strstr l ''mcro''
     \<and> scan_word l \<noteq> None \<Longrightarrow>
   \<exists>s'. pp_loop ls s = Inr s' \<and> outputFile s' = outputFile s @ concat ls \<and> table s' = table s"
proof (induction ls arbitrary: s)
  case Nil
  then show ?case by simp
next
  case (Cons l ls)
  then have l: "length l < MAX_LINE_LEN" "NUL \<notin> set l" "CHR '';'' \<notin> set l" "\<not> strstr l ''mcro''"
    and sw: "scan_word l \<noteq> None" by auto
  then have tl: "takeWhile (\<lambda>c. c \<noteq> CHR '';'') (cstr l) = l" by (auto simp: takeWhile_eq_all_conv)
  from sw obtain w where w: "scan_word l = Some w" by blast
  from scan_word_sub [OF w] l(1,2) have "length (cstr w) < MAX_LINE_LEN"
    by (metis cstr_no_nul le_less_trans length_takeWhile_le cstr_def)
  with Cons.prems(1) have f: "findMacro (table s) w = Inr (-1)" by (rule findMacro_empty)
  have st: "pp_step l s = Inr (s\<lparr>trimmedLine := Some w, outputFile := outputFile s @ l\<rparr>)"
    using pp_step_plain [OF Cons.prems(2), of l w] l(4) w f tl by simp
  from Cons.IH [of "s\<lparr>trimmedLine := Some w, outputFile := outputFile s @ l\<rparr>"] Cons.prems st
  show ?case by auto
qed

lemma processSourceFile_frame:
  "processSourceFile can_open fsy src out t = Inr (fsy', t') \<Longrightarrow> n \<noteq> out \<Longrightarrow> fsy' n = fsy n"
  by (auto simp: processSourceFile_def Let_def cbind_eq_Inr split: option.splits if_splits)

lemma scan_word_ok:
  assumes "scan_word l = Some w" and "length l < MAX_LINE_LEN"
  shows "word_ok w"
proof -
  let ?t = "dropWhile isspace (cstr l)"
  from assms(1) have t: "?t \<noteq> []" and w: "w = takeWhile (\<lambda>c. \<not> isspace c) ?t"
    by (auto simp: scan_word_def Let_def split: if_splits)
  from t have "\<not> isspace (hd ?t)" by (metis hd_dropWhile)
  with t have "w \<noteq> []" unfolding w by (cases ?t) auto
  moreover from scan_word_sub [OF assms(1)] assms(2) length_cstr_le [of l]
  have "length w < MAX_LINE_LEN" "NUL \<notin> set w" by auto
  moreover have "\<forall>c \<in> set w. \<not> isspace c" unfolding w by (auto dest: set_takeWhileD)
  ultimately show ?thesis by (auto simp: word_ok_def)
qed

lemma word_ok_trim: "word_ok w \<Longrightarrow> trimWhitespace (cstr w) = w"
proof -
  assume ok: "word_ok w"
  then have c: "cstr w = w" by (auto simp: word_ok_def intro: cstr_no_nul)
  from ok have "takeWhile isspace w = []" by (cases w) (auto simp: word_ok_def)
  moreover from ok have "takeWhile isspace (rev w) = []"
    by (cases "rev w") (auto simp: word_ok_def dest: arg_cong [where f = set])
  ultimately show ?thesis using ok by (simp add: trimWhitespace_def c word_ok_def)
qed

lemma addMacro_names:
  assumes "macro_names_ok t" "word_ok n" "addMacro t n c = Inr t'"
  shows "macro_names_ok t'"
proof -
  from assms(3) obtain i where f: "findMacro t n = Inr i"
    by (cases "findMacro t n") (simp_all add: addMacro_def)
  show ?thesis
  proof (cases "i = -1")
    case True
    with f have "map_of (map (\<lambda>m. (mname m, content m)) (macros t)) n = None"
      using word_ok_trim [OF assms(2)]
      by (simp add: findMacro_def find_macro_idx_spec split: if_split_asm)
    then have "n \<notin> set (map mname (macros t))" by (simp add: map_of_eq_None_iff image_comp)
    moreover obtain c' where c: "c = Some c'"
    proof (cases c)
      case None
      with assms(3) f True show ?thesis by (simp add: addMacro_def Let_def split: if_split_asm)
    qed
    with assms(3) f True
    have "t' = t\<lparr>alloc := capacity t, macros := macros t @ [\<lparr>mname = cstr n, content = cstr c'\<rparr>]\<rparr>"
      by (simp add: addMacro_def Let_def split: if_split_asm)
    moreover have "cstr n = n" using assms(2) by (auto simp: word_ok_def intro: cstr_no_nul)
    ultimately show ?thesis using assms(1,2) by (simp add: macro_names_ok_def)
  next
    case False
    with assms(3) f have "t' = t\<lparr>alloc := capacity t\<rparr>" by (simp add: addMacro_def Let_def)
    with assms(1) show ?thesis by (simp add: macro_names_ok_def)
  qed
qed

lemma mcro_start_names:
  "pp_names_ok s \<Longrightarrow> length line < MAX_LINE_LEN \<Longrightarrow> mcro_start line s = Inr (b, s') \<Longrightarrow> pp_names_ok s'"
  using scan_word_ok [of "drop LENGTH_OF_MCRO line"] mcro_start_table [of line s b s']
  by (auto simp: mcro_start_def pp_names_ok_def cbind_eq_Inr Let_def split: if_splits option.splits)

lemma mcro_end_names: "pp_names_ok s \<Longrightarrow> mcro_end s = Inr s' \<Longrightarrow> pp_names_ok s'"
  by (auto simp: mcro_end_def pp_names_ok_def cbind_eq_Inr split: if_splits option.splits
      dest: addMacro_names)

lemma macro_call_names: "pp_names_ok s \<Longrightarrow> macro_call line s = Inr s' \<Longrightarrow> pp_names_ok s'"
  by (auto simp: macro_call_def pp_names_ok_def cbind_eq_Inr Let_def split: if_splits option.splits)

lemma pp_step_names:
  assumes "pp_names_ok s" "length l < MAX_LINE_LEN" "pp_step l s = Inr s'"
  shows "pp_names_ok s'"
proof -
  have "length (takeWhile (\<lambda>c. c \<noteq> CHR '';'') (cstr l)) < MAX_LINE_LEN"
    using length_takeWhile_le [of _ "cstr l"] length_cstr_le [of l] assms(2) by (meson le_less_trans order_trans)
  note m = mcro_start_names [OF assms(1) this]
  from assms(3) show ?thesis
  proof (cases rule: pp_step_cases)
    case blank then show ?thesis using assms(1) by simp
  next
    case (start s1) then show ?thesis using m by blast
  next
    case (finish s1) then show ?thesis using m mcro_end_names by blast
  next
    case (body s1) then show ?thesis using m [of False s1] by (simp add: pp_names_ok_def)
  next
    case (call s1) then show ?thesis using m macro_call_names by blast
  qed
qed

lemma pp_loop_names:
  "pp_names_ok s \<Longrightarrow> \<forall>l \<in> set ls. length l < MAX_LINE_LEN \<Longrightarrow> pp_loop ls s = Inr s' \<Longrightarrow> pp_names_ok s'"
proof (induction ls arbitrary: s)
  case (Cons l ls)
  then obtain s1 where "pp_step l s = Inr s1" "pp_loop ls s1 = Inr s'" by (auto simp: cbind_eq_Inr)
  with Cons.IH pp_step_names [OF Cons.prems(1)] Cons.prems(2) show ?case by (meson list.set_intros)
qed simp

text \<open>
  C38.  Every macro table \<^verbatim>\<open>processSourceFile\<close> builds is well formed: its names
  are distinct, and each is a non-empty word without blanks or NUL that fits the
  \<^verbatim>\<open>MAX_LINE_LEN\<close> buffer, so \<^verbatim>\<open>findMacro\<close> finds each at exactly one index.
\<close>

theorem processSourceFile_names_ok:
  "processSourceFile can_open fsy src out initializeMacroTable = Inr (fsy', t) \<Longrightarrow> macro_names_ok t"
proof -
  assume r: "processSourceFile can_open fsy src out initializeMacroTable = Inr (fsy', t)"
  have i: "pp_names_ok (pp_init initializeMacroTable)"
    by (simp add: pp_init_def initializeMacroTable_def pp_names_ok_def macro_names_ok_def)
  show ?thesis
  proof (cases "fsy src = None \<or> \<not> can_open out")
    case True
    with r have "t = initializeMacroTable"
      by (auto simp: processSourceFile_def Let_def split: option.splits)
    then show ?thesis by (simp add: initializeMacroTable_def macro_names_ok_def)
  next
    case False
    with r obtain x where x: "pp_loop (fgets_lines (the (fsy src))) (pp_init initializeMacroTable) = Inr x" "t = table x"
      by (auto simp: processSourceFile_def Let_def cbind_eq_Inr)
    have "\<forall>l \<in> set (fgets_lines (the (fsy src))). length l < MAX_LINE_LEN"
      using fgets_lines_chunks [of "the (fsy src)"] by (auto simp: MAX_LINE_LENGTH_def MAX_LINE_LEN_def)
    from pp_loop_names [OF i this x(1)] x(2) show ?thesis by (simp add: pp_names_ok_def)
  qed
qed

text \<open>
  A line outside a definition that calls no macro is copied only up to its first
  \<open>;\<close>: with a trailing comment the newline goes too and the next line is joined on.
\<close>

lemma pp_step_comment_example:
  "pp_step (''stop ; end'' @ [CHR 0x0A]) (pp_init initializeMacroTable)
     = Inr ((pp_init initializeMacroTable)\<lparr>trimmedLine := Some ''stop'', outputFile := ''stop ''\<rparr>)"
proof -
  have "pp_step (''stop ; end'' @ [CHR 0x0A]) (pp_init initializeMacroTable)
     = Inr ((pp_init initializeMacroTable)\<lparr>trimmedLine := Some ''stop'',
         outputFile := outputFile (pp_init initializeMacroTable)
           @ takeWhile (\<lambda>c. c \<noteq> CHR '';'') (cstr (''stop ; end'' @ [CHR 0x0A]))\<rparr>)"
    by (rule pp_step_plain) (simp_all add: c_eval cstr_def)
  then show ?thesis by (simp add: cstr_def pp_init_def)
qed

text \<open>
  C39.  Closing a macro definition that has no body line has undefined behaviour:
  \<^verbatim>\<open>addMacro\<close> calls \<^verbatim>\<open>strlen\<close> on the null pointer \<open>macroContent\<close>.
\<close>

theorem mcro_end_empty_UB:
  "macroName s = Some n \<Longrightarrow> findMacro (table s) n = Inr (-1) \<Longrightarrow> macroContent s = None \<Longrightarrow>
   mcro_end s = Inl Undefined_behaviour"
  by (simp add: mcro_end_def addMacro_def Let_def)

text \<open>
  A line of spaces is not skipped (the \<^verbatim>\<open>strspn\<close> set has no space) and
  \<^verbatim>\<open>sscanf\<close> leaves \<open>trimmedLine\<close> as it was: after a macro call such a line expands
  the same macro again, and as the first line of a file it reads an unset pointer.
\<close>

theorem processSourceFile_blank_lines:
  "(\<exists>fsy' t. processSourceFile (\<lambda>_. True)
      [''a.as'' \<mapsto> ''mcro m1'' @ [CHR 0x0A] @ '' mov r1, r2'' @ [CHR 0x0A] @ ''endmcro'' @ [CHR 0x0A]
                  @ ''m1'' @ [CHR 0x0A] @ ''  '' @ [CHR 0x0A]] ''a.as'' ''a.am'' initializeMacroTable = Inr (fsy', t)
     \<and> fsy' ''a.am'' = Some ('' mov r1, r2'' @ [CHR 0x0A] @ '' mov r1, r2'' @ [CHR 0x0A]))
   \<and> processSourceFile (\<lambda>_. True) [''a.as'' \<mapsto> ''  '' @ [CHR 0x0A] @ ''stop'' @ [CHR 0x0A]] ''a.as'' ''a.am''
       initializeMacroTable = Inl Undefined_behaviour"
  by (simp add: c_eval fgets_lines.simps cstr_def)

text \<open>
  C40.  On a source without macros the preprocessor is the identity: when no line
  \<^verbatim>\<open>fgets\<close> reads contains \<open>mcro\<close> or \<open>;\<close> and every line has a word,
  \<^verbatim>\<open>processSourceFile\<close> writes the source unchanged to the intermediate file and
  leaves the table empty.
\<close>

theorem processSourceFile_no_macros:
  assumes "fsy src = Some srctext" and "can_open out" and "NUL \<notin> set srctext"
    and "\<forall>l \<in> set (fgets_lines srctext). CHR '';'' \<notin> set l \<and> \<not> strstr l ''mcro'' \<and> scan_word l \<noteq> None"
  shows "processSourceFile can_open fsy src out initializeMacroTable = Inr (fsy(out \<mapsto> srctext), initializeMacroTable)"
proof -
  have "\<forall>l \<in> set (fgets_lines srctext). length l < MAX_LINE_LEN \<and> NUL \<notin> set l \<and> CHR '';'' \<notin> set l
          \<and> \<not> strstr l ''mcro'' \<and> scan_word l \<noteq> None"
  proof
    fix l assume l: "l \<in> set (fgets_lines srctext)"
    with fgets_lines_chunks [of srctext] have "length l < MAX_LINE_LEN"
      by (auto simp: MAX_LINE_LENGTH_def MAX_LINE_LEN_def)
    moreover have "set l \<subseteq> set (concat (fgets_lines srctext))" using l by auto
    then have "set l \<subseteq> set srctext" by (simp only: fgets_lines_chunks)
    ultimately show "length l < MAX_LINE_LEN \<and> NUL \<notin> set l \<and> CHR '';'' \<notin> set l
          \<and> \<not> strstr l ''mcro'' \<and> scan_word l \<noteq> None" using l assms(3,4) by blast
  qed
  from pp_loop_plain [OF _ _ this, of "pp_init initializeMacroTable"] obtain s' where
    "pp_loop (fgets_lines srctext) (pp_init initializeMacroTable) = Inr s'"
    "outputFile s' = concat (fgets_lines srctext)" "table s' = initializeMacroTable"
    by (auto simp: pp_init_def initializeMacroTable_def)
  with assms(1,2) fgets_lines_chunks [of srctext] show ?thesis
    by (simp add: processSourceFile_def)
qed

theorem processSourceFile_no_macros_witness:
  "processSourceFile (\<lambda>_. True) [''a.as'' \<mapsto> ''stop'' @ [CHR 0x0A] @ '' mov r1, r2''] ''a.as'' ''a.am''
     initializeMacroTable
   = Inr ([''a.as'' \<mapsto> ''stop'' @ [CHR 0x0A] @ '' mov r1, r2'', ''a.am'' \<mapsto> ''stop'' @ [CHR 0x0A] @ '' mov r1, r2''],
          initializeMacroTable)"
proof (rule processSourceFile_no_macros)
  show "\<forall>l \<in> set (fgets_lines (''stop'' @ [CHR 0x0A] @ '' mov r1, r2'')). CHR '';'' \<notin> set l
          \<and> \<not> strstr l ''mcro'' \<and> scan_word l \<noteq> None"
    by (simp add: c_eval fgets_lines.simps cstr_def)
qed simp_all

theorem findMacro_refines_witness:
  "findMacro \<lparr>macros = [\<lparr>mname = ''m1'', content = ''x''\<rparr>], capacity = 10, alloc = 10\<rparr> '' m1'' = Inr 0
   \<and> macro_map \<lparr>macros = [\<lparr>mname = ''m1'', content = ''x''\<rparr>], capacity = 10, alloc = 10\<rparr> ''m1'' = Some ''x''"
proof -
  have r: "findMacro \<lparr>macros = [\<lparr>mname = ''m1'', content = ''x''\<rparr>], capacity = 10, alloc = 10\<rparr> '' m1'' = Inr 0"
    by (simp add: c_eval cstr_def)
  from findMacro_refines [OF r] r show ?thesis by (simp add: c_eval cstr_def)
qed

theorem addMacro_lookup_witness:
  "\<exists>t'. addMacro initializeMacroTable ''m1'' (Some ''x'') = Inr t' \<and> macro_map t' = [''m1'' \<mapsto> ''x'']"
proof -
  obtain t' where r: "addMacro initializeMacroTable ''m1'' (Some ''x'') = Inr t'"
    by (simp add: c_eval cstr_def)
  have f: "findMacro initializeMacroTable ''m1'' = Inr (-1)" by (simp add: c_eval cstr_def)
  have "trimWhitespace (cstr ''m1'') = cstr ''m1''" by (simp add: c_eval cstr_def)
  from addMacro_lookup [OF r f this] r show ?thesis
    by (auto simp: macro_map_def initializeMacroTable_def cstr_def)
qed

theorem addMacro_full_UB_witness:
  "addMacro \<lparr>macros = replicate 10 \<lparr>mname = ''a'', content = []\<rparr>, capacity = 10, alloc = 10\<rparr> ''b'' (Some ''x'')
     = Inl Undefined_behaviour"
proof (rule addMacro_full_UB)
  show "table_ok \<lparr>macros = replicate 10 \<lparr>mname = ''a'', content = []\<rparr>, capacity = 10, alloc = 10\<rparr>"
    by (simp add: table_ok_def)
  show "length (macros \<lparr>macros = replicate 10 \<lparr>mname = ''a'', content = []\<rparr>, capacity = 10, alloc = 10\<rparr>)
    = capacity \<lparr>macros = replicate 10 \<lparr>mname = ''a'', content = []\<rparr>, capacity = 10, alloc = 10\<rparr>" by simp
  show "findMacro \<lparr>macros = replicate 10 \<lparr>mname = ''a'', content = []\<rparr>, capacity = 10, alloc = 10\<rparr> ''b'' = Inr (-1)"
    by (simp add: c_eval cstr_def numeral_eq_Suc)
qed

theorem processSourceFile_table_bound_witness:
  "\<exists>fsy' t. processSourceFile (\<lambda>_. True) [''a.as'' \<mapsto> ''mcro m1'' @ [CHR 0x0A] @ ''stop'' @ [CHR 0x0A]
       @ ''endmcro'' @ [CHR 0x0A]] ''a.as'' ''a.am'' initializeMacroTable = Inr (fsy', t)
     \<and> length (macros t) \<le> 10"
proof -
  obtain fsy' t where r: "processSourceFile (\<lambda>_. True) [''a.as'' \<mapsto> ''mcro m1'' @ [CHR 0x0A] @ ''stop'' @ [CHR 0x0A]
       @ ''endmcro'' @ [CHR 0x0A]] ''a.as'' ''a.am'' initializeMacroTable = Inr (fsy', t)"
    by (simp add: c_eval fgets_lines.simps cstr_def)
  from processSourceFile_table_bound [OF r] r show ?thesis by blast
qed

theorem mcro_end_empty_UB_witness:
  "mcro_end ((pp_init initializeMacroTable)\<lparr>macroName := Some ''m''\<rparr>) = Inl Undefined_behaviour"
proof (rule mcro_end_empty_UB)
  have "length (cstr ''m'') \<le> 1" using length_takeWhile_le [of "\<lambda>c. c \<noteq> NUL" "''m''"] by (simp add: cstr_def)
  then show "findMacro (table ((pp_init initializeMacroTable)\<lparr>macroName := Some ''m''\<rparr>)) ''m'' = Inr (-1)"
    by (simp add: findMacro_def pp_init_def initializeMacroTable_def MAX_LINE_LEN_def)
qed (simp_all add: pp_init_def)

theorem processSourceFile_names_ok_witness:
  "\<exists>fsy' t. processSourceFile (\<lambda>_. True) [''a.as'' \<mapsto> ''mcro m1'' @ [CHR 0x0A] @ ''stop'' @ [CHR 0x0A]
       @ ''endmcro'' @ [CHR 0x0A] @ ''mcro m2'' @ [CHR 0x0A] @ ''stop'' @ [CHR 0x0A]
       @ ''endmcro'' @ [CHR 0x0A]] ''a.as'' ''a.am'' initializeMacroTable = Inr (fsy', t)
     \<and> map mname (macros t) = [''m1'', ''m2''] \<and> macro_names_ok t"
proof -
  obtain fsy' t where r: "processSourceFile (\<lambda>_. True) [''a.as'' \<mapsto> ''mcro m1'' @ [CHR 0x0A] @ ''stop'' @ [CHR 0x0A]
       @ ''endmcro'' @ [CHR 0x0A] @ ''mcro m2'' @ [CHR 0x0A] @ ''stop'' @ [CHR 0x0A]
       @ ''endmcro'' @ [CHR 0x0A]] ''a.as'' ''a.am'' initializeMacroTable = Inr (fsy', t)"
    and n: "map mname (macros t) = [''m1'', ''m2'']"
    by (simp add: c_eval fgets_lines.simps cstr_def Let_def)
  have "macro_names_ok t" by (rule processSourceFile_names_ok [OF r])
  with r n show ?thesis by (intro exI conjI)
qed

end
