(* ===== verification/Driver.thy ===== *)
theory Driver
  imports Directives Serializer Preprocessor
begin

text \<open>
  The line driver: \<^verbatim>\<open>parseLine\<close> of \<^verbatim>\<open>src/parser.c\<close>, which dispatches a line on
  its first token, and the loops of \<^verbatim>\<open>main\<close> in \<^verbatim>\<open>src/main.c\<close>: the lines
  \<^verbatim>\<open>fgets\<close> reads from the preprocessed file, and the files of the command line.
  Each source file goes through \<^verbatim>\<open>processSourceFile\<close> of theory \<open>Preprocessor\<close>
  first; the driver then reads the intermediate file from the file system.
\<close>

section \<open>Definitions\<close>

text \<open>
  \<^verbatim>\<open>parseLine\<close>.  A leading label declaration goes to \<^verbatim>\<open>parseLabel\<close> (whose
  indeterminate local is \<open>nextTok\<close>) and the next token is read; then the token is
  dispatched.  The handlers receive the cursor \<^verbatim>\<open>&line_index\<close>.
\<close>

definition parseLine :: "char list \<Rightarrow> asm_state \<Rightarrow> int \<Rightarrow> TokenType \<Rightarrow> (bool \<times> asm_state) cres" where
  "parseLine line st ln nextTok =
     (if isLineTooLong line then Inr (False, st)
      else cbind (getNextToken line) (\<lambda>(t, li).
        cbind (if ttype t = LABEL_DECLARATION then
                 cbind (parseLabel t li st False False False nextTok) (\<lambda>(ok, st1, li1).
                   cbind (getNextToken li1) (\<lambda>(t2, li2). Inr (ok, st1, t2, li2)))
               else Inr (True, st, t, li)) (\<lambda>(ok, st1, t1, li1).
        if \<not> ok then Inr (False, st1)
        else if ttype t1 = END then Inr (True, st1)
        else if ttype t1 = DIRECTIVE then parseDirective t1 li1 st1 False False False nextTok ln
        else if ttype t1 = ONE_OPERAND then parseOneOperand li1 t1 st1
        else if ttype t1 = TWO_OPERANDS then parseTwoOperands li1 t1 st1
        else if ttype t1 = NO_OPERANDS then parseNoOperands li1 t1 st1
        else Inr (False, st1))))"

text \<open>
  The loop of \<^verbatim>\<open>main\<close> over the lines of one file (lines 75 to 85): the line number
  starts at the given value and \<^verbatim>\<open>ERROR_FOUND\<close> accumulates the failures.
  \<open>nts\<close> gives, per line number, the indeterminate local of \<^verbatim>\<open>parseLabel\<close>.
\<close>

fun process_lines ::
  "char list list \<Rightarrow> asm_state \<Rightarrow> int \<Rightarrow> (int \<Rightarrow> TokenType) \<Rightarrow> bool \<Rightarrow> (bool \<times> asm_state) cres" where
  "process_lines [] st ln nts err = Inr (err, st)"
| "process_lines (l # ls) st ln nts err =
     cbind (parseLine l st ln (nts ln)) (\<lambda>(ok, st').
       process_lines ls st' (ln + 1) nts (err \<or> \<not> ok))"

text \<open>
  \<^verbatim>\<open>generateIntermediateFileName\<close> (lines 20 to 30): the name is copied into a
  static buffer of \<^verbatim>\<open>MAX_FILE_NAME_LENGTH\<close> bytes, cut at its last dot, and
  \<open>.am\<close> is appended.  A name that does not fit the buffer is undefined behaviour.
\<close>

definition generateIntermediateFileName :: "char list \<Rightarrow> char list cres" where
  "generateIntermediateFileName fileName =
     (if MAX_FILE_NAME_LENGTH \<le> length (cstr fileName) then Inl Undefined_behaviour
      else (let base = (case strrchr fileName (CHR ''.'') of
                          None \<Rightarrow> cstr fileName
                        | Some k \<Rightarrow> take k (cstr fileName)) in
            if MAX_FILE_NAME_LENGTH \<le> length base + length ''.am'' then Inl Undefined_behaviour
            else Inr (base @ ''.am'')))"

text \<open>
  The loop of \<^verbatim>\<open>main\<close> over the command line (lines 51 to 98).  A name that does
  not end in \<open>.as\<close> is skipped.  Otherwise a fresh macro table is initialized, the
  source is preprocessed into the intermediate file, the table is freed (it is not used
  again), and the intermediate file is opened for reading: when it does not exist
  \<^verbatim>\<open>main\<close> returns 1.  Its lines go through \<^verbatim>\<open>parseLine\<close>.  \<open>IC\<close>, \<open>DC\<close>,
  the images and the label table carry over from one file to the next, and so do the
  serializer's arrays and the file system.  When no error was found,
  \<^verbatim>\<open>writeFiles\<close> is called with the constant name \<^verbatim>\<open>"output.am"\<close>.  The
  result lists, per file, its name, whether an error was found and the state after its
  last line, then the final state, arrays and file system.
\<close>

fun assemble_files ::
  "char list list \<Rightarrow> asm_state \<Rightarrow> ser_arrays \<Rightarrow> fsys \<Rightarrow> (char list \<Rightarrow> bool)
   \<Rightarrow> (char list \<Rightarrow> int \<Rightarrow> TokenType)
   \<Rightarrow> ((char list \<times> bool \<times> asm_state) list \<times> asm_state \<times> ser_arrays \<times> fsys) cres" where
  "assemble_files [] st arrs fsy can_open nts = Inr ([], st, arrs, fsy)"
| "assemble_files (fname # files) st arrs fsy can_open nts =
     (if \<not> (3 < length fname \<and> drop (length fname - 3) fname = ''.as'')
      then assemble_files files st arrs fsy can_open nts
      else cbind (generateIntermediateFileName fname) (\<lambda>am.
        cbind (processSourceFile can_open fsy fname am initializeMacroTable) (\<lambda>(fsy0, t).
        case fsy0 am of
          None \<Rightarrow> Inl (Exit 1)
        | Some src \<Rightarrow>
        cbind (process_lines (fgets_lines src) st 1 (nts fname) False) (\<lambda>(err, st').
        cbind (if err then Inr (fsy0, arrs, [])
               else writeFiles can_open ''output.am'' (codeImage st') (dataImage st') arrs
                      (labelTable st') (IC st') (DC st') fsy0) (\<lambda>(fsy', arrs', _).
        cbind (assemble_files files st' arrs' fsy' can_open nts) (\<lambda>(outs, r).
          Inr ((fname, err, st') # outs, r)))))))"

text \<open>The state \<^verbatim>\<open>main\<close> starts from: counters 0, an empty table, images uninitialized.\<close>

definition main_state :: "image \<Rightarrow> image \<Rightarrow> asm_state" where
  "main_state ci di = \<lparr>codeImage = ci, dataImage = di, labelTable = createLabelTable, IC = 0, DC = 0\<rparr>"

text \<open>
  \<^verbatim>\<open>main\<close>: with no file on the command line it returns 1; otherwise it runs the
  loop over \<open>argv[1..]\<close> from \<open>main_state\<close> and returns 0 with the final file
  system.
\<close>

definition main ::
  "char list list \<Rightarrow> image \<Rightarrow> image \<Rightarrow> ser_arrays \<Rightarrow> fsys \<Rightarrow> (char list \<Rightarrow> bool)
   \<Rightarrow> (char list \<Rightarrow> int \<Rightarrow> TokenType) \<Rightarrow> fsys cres" where
  "main argv ci di arrs fsy can_open nts =
     (if length argv \<le> 1 then Inl (Exit 1)
      else cbind (assemble_files (tl argv) (main_state ci di) arrs fsy can_open nts) (\<lambda>(_, _, _, fsy').
        Inr fsy'))"

lemmas driver_eval [c_eval] = parseLine_def main_state_def generateIntermediateFileName_def main_def

section \<open>Lemmas\<close>

lemma parseLine_mono:
  "parseLine line st ln nextTok = Inr (b, st') \<Longrightarrow>
   labelTable st' = labelTable st \<and> IC st \<le> IC st' \<and> DC st \<le> DC st'"
  by (auto simp: parseLine_def cbind_eq_Inr split: if_splits
      dest!: parseLabel_state parseDirective_mono parseOneOperand_mono parseTwoOperands_mono
        parseNoOperands_mono)

lemma process_lines_mono:
  "process_lines ls st ln nts err = Inr (err', st') \<Longrightarrow>
   labelTable st' = labelTable st \<and> IC st \<le> IC st' \<and> DC st \<le> DC st' \<and> (err \<longrightarrow> err')"
proof (induction ls arbitrary: st ln err)
  case Nil
  then show ?case by simp
next
  case (Cons l ls)
  from Cons.prems obtain ok st1 where
    pl: "parseLine l st ln (nts ln) = Inr (ok, st1)" and
    rest: "process_lines ls st1 (ln + 1) nts (err \<or> \<not> ok) = Inr (err', st')"
    by (auto simp: cbind_eq_Inr)
  from parseLine_mono [OF pl] Cons.IH [OF rest] show ?case by auto
qed

section \<open>Properties of the driver\<close>

text \<open>
  C19.  The lines \<^verbatim>\<open>fgets\<close> hands to \<^verbatim>\<open>parseLine\<close> are the file cut into
  non-empty pieces of at most \<^verbatim>\<open>MAX_LINE_LENGTH\<close> characters, in order and without
  loss; so \<^verbatim>\<open>isLineTooLong\<close> never rejects a line, and a longer source line is
  silently parsed as several lines.
\<close>

theorem fgets_lines_roundtrip:
  "concat (fgets_lines s) = s \<and> (\<forall>l \<in> set (fgets_lines s). l \<noteq> [] \<and> \<not> isLineTooLong l)"
proof -
  have "\<not> isLineTooLong l" if "l \<in> set (fgets_lines s)" for l
    using fgets_lines_chunks [of s] that length_cstr_le [of l] by (auto simp: isLineTooLong_def)
  with fgets_lines_chunks [of s] show ?thesis by blast
qed

theorem fgets_lines_roundtrip_witness:
  "fgets_lines (''ab'' @ [CHR 0x0A] @ ''c'') = [''ab'' @ [CHR 0x0A], ''c'']
   \<and> \<not> isLineTooLong (''ab'' @ [CHR 0x0A]) \<and> \<not> isLineTooLong ''c''"
proof -
  have f: "fgets_lines (''ab'' @ [CHR 0x0A] @ ''c'') = [''ab'' @ [CHR 0x0A], ''c'']"
    by (simp add: c_eval fgets_lines.simps)
  from fgets_lines_roundtrip [of "''ab'' @ [CHR 0x0A] @ ''c''"] f show ?thesis by simp
qed

text \<open>
  C20.  A line that starts with a label declaration is never accepted by
  \<^verbatim>\<open>parseLine\<close>, and leaves the state as it was, when it does not stop the program.
\<close>

theorem parseLine_label_line:
  assumes "getNextToken line = Inr (t, li)" and "ttype t = LABEL_DECLARATION"
    and "parseLine line st ln nextTok = Inr (b, st')"
  shows "\<not> b \<and> st' = st"
proof (cases "isLineTooLong line")
  case True
  with assms(3) show ?thesis by (simp add: parseLine_def)
next
  case False
  show ?thesis
  proof (cases "parseLabel t li st False False False nextTok")
    case (Inl e)
    with assms False show ?thesis by (simp add: parseLine_def)
  next
    case (Inr r)
    obtain ok st1 li1 where r: "r = (ok, st1, li1)" by (cases r) blast
    from Inr r have "parseLabel t li st False False False nextTok = Inr (ok, st1, li1)" by simp
    from parseLabel_decl [OF assms(2) this] have ok: "\<not> ok" "st1 = st" by auto
    show ?thesis
    proof (cases "getNextToken li1")
      case (Inl e)
      with assms False Inr r show ?thesis by (simp add: parseLine_def)
    next
      case (Inr q)
      obtain t2 li2 where q: "q = (t2, li2)" by (cases q) blast
      with assms False \<open>parseLabel t li st False False False nextTok = Inr r\<close> r Inr ok
      show ?thesis by (simp add: parseLine_def)
    qed
  qed
qed

theorem parseLine_label_line_witness:
  "getNextToken (''L1: stop'' @ [CHR 0x0A]) = Inr (\<lparr>ttype = LABEL_DECLARATION, tvalue = ''L1'' @ [NUL, NUL]\<rparr>, '' stop'' @ [CHR 0x0A])
   \<and> parseLine (''L1: stop'' @ [CHR 0x0A]) \<lparr>codeImage = \<lambda>_. undefined, dataImage = \<lambda>_. undefined, labelTable = [], IC = 0, DC = 0\<rparr> 1 COMMA = Inr (False, \<lparr>codeImage = \<lambda>_. undefined, dataImage = \<lambda>_. undefined, labelTable = [], IC = 0, DC = 0\<rparr>)"
proof -
  have g: "getNextToken (''L1: stop'' @ [CHR 0x0A]) = Inr (\<lparr>ttype = LABEL_DECLARATION, tvalue = ''L1'' @ [NUL, NUL]\<rparr>, '' stop'' @ [CHR 0x0A])"
    by (simp add: c_eval)
  have r: "parseLine (''L1: stop'' @ [CHR 0x0A]) \<lparr>codeImage = \<lambda>_. undefined, dataImage = \<lambda>_. undefined, labelTable = [], IC = 0, DC = 0\<rparr> 1 COMMA = Inr (False, \<lparr>codeImage = \<lambda>_. undefined, dataImage = \<lambda>_. undefined, labelTable = [], IC = 0, DC = 0\<rparr>)"
    by (simp add: c_eval)
  from parseLine_label_line [OF g _ r] g r show ?thesis by simp
qed

text \<open>
  C21.  In every run of \<^verbatim>\<open>main\<close> that has defined behaviour, the label table that
  \<^verbatim>\<open>writeFiles\<close> receives is empty, and \<open>IC\<close> and \<open>DC\<close> only grow from one file to
  the next.
\<close>

theorem assemble_files_no_labels:
  "assemble_files files st arrs fsy can_open nts = Inr (outs, st', arrs', fsy') \<Longrightarrow> labelTable st = [] \<Longrightarrow>
   labelTable st' = [] \<and> IC st \<le> IC st' \<and> DC st \<le> DC st'
   \<and> (\<forall>(f, err, s) \<in> set outs. labelTable s = [] \<and> IC st \<le> IC s \<and> DC st \<le> DC s)"
proof (induction files arbitrary: st arrs fsy outs)
  case Nil
  then show ?case by simp
next
  case (Cons fname files)
  show ?case
  proof (cases "3 < length fname \<and> drop (length fname - 3) fname = ''.as''")
    case False
    with Cons.prems show ?thesis using Cons.IH by auto
  next
    case True
    with Cons.prems obtain src err st1 fsy1 arrs1 outs' where
      pl: "process_lines (fgets_lines src) st 1 (nts fname) False = Inr (err, st1)" and
      rest: "assemble_files files st1 arrs1 fsy1 can_open nts = Inr (outs', st', arrs', fsy')" and
      outs: "outs = (fname, err, st1) # outs'"
      by (auto simp: cbind_eq_Inr split: prod.splits if_splits option.splits)
    note m = process_lines_mono [OF pl]
    with Cons.prems(2) have "labelTable st1 = []" by simp
    from Cons.IH [OF rest this] have ih:
      "labelTable st' = [] \<and> IC st1 \<le> IC st' \<and> DC st1 \<le> DC st'
       \<and> (\<forall>(f, err, s) \<in> set outs'. labelTable s = [] \<and> IC st1 \<le> IC s \<and> DC st1 \<le> DC s)" .
    have "\<forall>(f, e, s) \<in> set outs. labelTable s = [] \<and> IC st \<le> IC s \<and> DC st \<le> DC s"
    proof
      fix x assume "x \<in> set outs"
      with outs consider "x = (fname, err, st1)" | "x \<in> set outs'" by auto
      then show "case x of (f, e, s) \<Rightarrow> labelTable s = [] \<and> IC st \<le> IC s \<and> DC st \<le> DC s"
      proof cases
        case 1
        with m \<open>labelTable st1 = []\<close> show ?thesis by simp
      next
        case 2
        obtain f e s where x: "x = (f, e, s)" by (cases x) blast
        with 2 ih have "labelTable s = [] \<and> IC st1 \<le> IC s \<and> DC st1 \<le> DC s" by fastforce
        with m x show ?thesis by auto
      qed
    qed
    with ih m show ?thesis by auto
  qed
qed

theorem assemble_files_no_labels_witness:
  "\<exists>outs st' arrs' fsy'. assemble_files [''a.as'']
       (main_state (\<lambda>_. \<lparr>label = \<lparr>name = [], address = 0, isExternal = False, isEntry = False, isData = False\<rparr>,
           isLabel = False, wordType = DATA_WORD_TYPE, word = 0, line_number = 0\<rparr>) (\<lambda>_. \<lparr>label = \<lparr>name = [], address = 0, isExternal = False, isEntry = False, isData = False\<rparr>,
           isLabel = False, wordType = DATA_WORD_TYPE, word = 0, line_number = 0\<rparr>)) \<lparr>codeImageBinary = \<lambda>_. 0, dataImageBinary = \<lambda>_. 0, codeImage64 = \<lambda>_. NUL, dataImage64 = \<lambda>_. NUL\<rparr> [''a.as'' \<mapsto> ''stop'' @ [CHR 0x0A]] (\<lambda>_. True) (\<lambda>_ _. COMMA)
       = Inr (outs, st', arrs', fsy')
     \<and> labelTable st' = [] \<and> 0 \<le> IC st'"
proof -
  have "\<exists>outs st' arrs' fsy'. assemble_files [''a.as'']
       (main_state (\<lambda>_. \<lparr>label = \<lparr>name = [], address = 0, isExternal = False, isEntry = False, isData = False\<rparr>,
           isLabel = False, wordType = DATA_WORD_TYPE, word = 0, line_number = 0\<rparr>) (\<lambda>_. \<lparr>label = \<lparr>name = [], address = 0, isExternal = False, isEntry = False, isData = False\<rparr>,
           isLabel = False, wordType = DATA_WORD_TYPE, word = 0, line_number = 0\<rparr>)) \<lparr>codeImageBinary = \<lambda>_. 0, dataImageBinary = \<lambda>_. 0, codeImage64 = \<lambda>_. NUL, dataImage64 = \<lambda>_. NUL\<rparr> [''a.as'' \<mapsto> ''stop'' @ [CHR 0x0A]] (\<lambda>_. True) (\<lambda>_ _. COMMA)
       = Inr (outs, st', arrs', fsy')"
    by (simp add: c_eval fgets_lines.simps noOps_loop.simps get_field_def upto.simps show_nat.simps
      read_cstr.simps cstr_def)
  then obtain outs st' arrs' fsy' where r: "assemble_files [''a.as'']
       (main_state (\<lambda>_. \<lparr>label = \<lparr>name = [], address = 0, isExternal = False, isEntry = False, isData = False\<rparr>,
           isLabel = False, wordType = DATA_WORD_TYPE, word = 0, line_number = 0\<rparr>) (\<lambda>_. \<lparr>label = \<lparr>name = [], address = 0, isExternal = False, isEntry = False, isData = False\<rparr>,
           isLabel = False, wordType = DATA_WORD_TYPE, word = 0, line_number = 0\<rparr>)) \<lparr>codeImageBinary = \<lambda>_. 0, dataImageBinary = \<lambda>_. 0, codeImage64 = \<lambda>_. NUL, dataImage64 = \<lambda>_. NUL\<rparr> [''a.as'' \<mapsto> ''stop'' @ [CHR 0x0A]] (\<lambda>_. True) (\<lambda>_ _. COMMA)
       = Inr (outs, st', arrs', fsy')" by blast
  have "labelTable (main_state (\<lambda>_. \<lparr>label = \<lparr>name = [], address = 0, isExternal = False, isEntry = False, isData = False\<rparr>,
           isLabel = False, wordType = DATA_WORD_TYPE, word = 0, line_number = 0\<rparr>) (\<lambda>_. \<lparr>label = \<lparr>name = [], address = 0, isExternal = False, isEntry = False, isData = False\<rparr>,
           isLabel = False, wordType = DATA_WORD_TYPE, word = 0, line_number = 0\<rparr>)) = []"
    by (simp add: main_state_def createLabelTable_def)
  from assemble_files_no_labels [OF r this] r show ?thesis
    by (auto simp: main_state_def)
qed

text \<open>
  C22.  \<^verbatim>\<open>main\<close> resets nothing between files: every file is parsed from the state
  the previous file left (its \<open>IC\<close>, \<open>DC\<close>, images and label table), the first from
  the initial state, and the final state is the last file's.  With two files that each
  hold \<open>stop\<close>, the second is therefore assembled at \<open>IC = 1\<close> and ends with
  \<open>IC = 2\<close>, and \<open>output.obj\<close> holds both words.
\<close>

theorem assemble_files_no_reset:
  "assemble_files files st arrs fsy can_open nts = Inr (outs, st', arrs', fsy') \<Longrightarrow>
   st' = last (st # map (\<lambda>(f, e, s). s) outs)
   \<and> (\<forall>i < length outs. \<exists>src. process_lines (fgets_lines src) ((st # map (\<lambda>(f, e, s). s) outs) ! i) 1
         (nts (fst (outs ! i))) False = Inr (fst (snd (outs ! i)), snd (snd (outs ! i))))"
proof (induction files arbitrary: st arrs fsy outs)
  case Nil
  then show ?case by simp
next
  case (Cons fname files)
  show ?case
  proof (cases "3 < length fname \<and> drop (length fname - 3) fname = ''.as''")
    case False
    with Cons show ?thesis by auto
  next
    case True
    with Cons.prems obtain src err st1 fsy1 arrs1 outs' where
      pl: "process_lines (fgets_lines src) st 1 (nts fname) False = Inr (err, st1)" and
      rest: "assemble_files files st1 arrs1 fsy1 can_open nts = Inr (outs', st', arrs', fsy')" and
      outs: "outs = (fname, err, st1) # outs'"
      by (auto simp: cbind_eq_Inr split: prod.splits if_splits option.splits)
    note ih = Cons.IH [OF rest]
    have "\<exists>src. process_lines (fgets_lines src) ((st # map (\<lambda>(f, e, s). s) outs) ! i) 1
         (nts (fst (outs ! i))) False = Inr (fst (snd (outs ! i)), snd (snd (outs ! i)))"
      if "i < length outs" for i
    proof (cases i)
      case 0
      with pl outs show ?thesis by auto
    next
      case (Suc j)
      with that outs ih show ?thesis by simp
    qed
    with ih outs show ?thesis by simp
  qed
qed

theorem assemble_files_no_reset_witness:
  "\<exists>outs st' arrs' fsy'. assemble_files [''a.as'', ''b.as'']
       (main_state (\<lambda>_. \<lparr>label = \<lparr>name = [], address = 0, isExternal = False, isEntry = False, isData = False\<rparr>,
           isLabel = False, wordType = DATA_WORD_TYPE, word = 0, line_number = 0\<rparr>) (\<lambda>_. \<lparr>label = \<lparr>name = [], address = 0, isExternal = False, isEntry = False, isData = False\<rparr>,
           isLabel = False, wordType = DATA_WORD_TYPE, word = 0, line_number = 0\<rparr>))
       \<lparr>codeImageBinary = \<lambda>_. 0, dataImageBinary = \<lambda>_. 0, codeImage64 = \<lambda>_. NUL, dataImage64 = \<lambda>_. NUL\<rparr>
       [''a.as'' \<mapsto> ''stop'' @ [CHR 0x0A], ''b.as'' \<mapsto> ''stop'' @ [CHR 0x0A]] (\<lambda>_. True) (\<lambda>_ _. COMMA)
       = Inr (outs, st', arrs', fsy')
     \<and> map (\<lambda>(f, e, s). (f, e, IC s)) outs = [(''a.as'', False, 1), (''b.as'', False, 2)]
     \<and> IC st' = 2
     \<and> fsy' ''output.obj'' = Some (''2 0'' @ [CHR 0x0A] @ ''0:'' @ [CHR 0x09] @ '' B4B4'' @ [CHR 0x0A]
          @ ''1:'' @ [CHR 0x09] @ '' 4B4'' @ [CHR 0x0A])"
proof -
  have "\<exists>outs st' arrs' fsy'. assemble_files [''a.as'', ''b.as'']
       (main_state (\<lambda>_. \<lparr>label = \<lparr>name = [], address = 0, isExternal = False, isEntry = False, isData = False\<rparr>,
           isLabel = False, wordType = DATA_WORD_TYPE, word = 0, line_number = 0\<rparr>) (\<lambda>_. \<lparr>label = \<lparr>name = [], address = 0, isExternal = False, isEntry = False, isData = False\<rparr>,
           isLabel = False, wordType = DATA_WORD_TYPE, word = 0, line_number = 0\<rparr>))
       \<lparr>codeImageBinary = \<lambda>_. 0, dataImageBinary = \<lambda>_. 0, codeImage64 = \<lambda>_. NUL, dataImage64 = \<lambda>_. NUL\<rparr>
       [''a.as'' \<mapsto> ''stop'' @ [CHR 0x0A], ''b.as'' \<mapsto> ''stop'' @ [CHR 0x0A]] (\<lambda>_. True) (\<lambda>_ _. COMMA)
       = Inr (outs, st', arrs', fsy')
     \<and> map (\<lambda>(f, e, s). (f, e, IC s)) outs = [(''a.as'', False, 1), (''b.as'', False, 2)] \<and> fsy' ''output.obj'' = Some (''2 0'' @ [CHR 0x0A] @ ''0:'' @ [CHR 0x09] @ '' B4B4'' @ [CHR 0x0A]
          @ ''1:'' @ [CHR 0x09] @ '' 4B4'' @ [CHR 0x0A])"
    by (simp add: c_eval fgets_lines.simps noOps_loop.simps get_field_def upto.simps show_nat.simps
      read_cstr.simps cstr_def)
  then obtain outs st' arrs' fsy' where r: "assemble_files [''a.as'', ''b.as'']
       (main_state (\<lambda>_. \<lparr>label = \<lparr>name = [], address = 0, isExternal = False, isEntry = False, isData = False\<rparr>,
           isLabel = False, wordType = DATA_WORD_TYPE, word = 0, line_number = 0\<rparr>) (\<lambda>_. \<lparr>label = \<lparr>name = [], address = 0, isExternal = False, isEntry = False, isData = False\<rparr>,
           isLabel = False, wordType = DATA_WORD_TYPE, word = 0, line_number = 0\<rparr>))
       \<lparr>codeImageBinary = \<lambda>_. 0, dataImageBinary = \<lambda>_. 0, codeImage64 = \<lambda>_. NUL, dataImage64 = \<lambda>_. NUL\<rparr>
       [''a.as'' \<mapsto> ''stop'' @ [CHR 0x0A], ''b.as'' \<mapsto> ''stop'' @ [CHR 0x0A]] (\<lambda>_. True) (\<lambda>_ _. COMMA)
       = Inr (outs, st', arrs', fsy')" and ov: "map (\<lambda>(f, e, s). (f, e, IC s)) outs = [(''a.as'', False, 1), (''b.as'', False, 2)]" and f: "fsy' ''output.obj'' = Some (''2 0'' @ [CHR 0x0A] @ ''0:'' @ [CHR 0x09] @ '' B4B4'' @ [CHR 0x0A]
          @ ''1:'' @ [CHR 0x09] @ '' 4B4'' @ [CHR 0x0A])" by (elim exE conjE) (rule that)
  from ov obtain a b where ab: "outs = [a, b]" and b: "IC (snd (snd b)) = 2"
    by (cases outs rule: list.exhaust) (auto simp: split_beta neq_Nil_conv)
  from assemble_files_no_reset [OF r] ab b have "IC st' = 2" by (simp add: split_beta)
  with r ov f show ?thesis by (intro exI conjI)
qed

lemma output_names:
  "generateOutputFileNames ''output.am'' = Some (''output.ent'', ''output.ext'', ''output.obj'')"
  by (simp add: c_eval)

text \<open>
  C32.  Whatever the input files, \<^verbatim>\<open>main\<close> changes no file but \<open>output.ent\<close>,
  \<open>output.ext\<close>, \<open>output.obj\<close> (the output names do not depend on the input file)
  and the intermediate \<open>.am\<close> files of its arguments; in particular no source file.
\<close>

theorem assemble_files_output_frame:
  "assemble_files files st arrs fsy can_open nts = Inr (outs, st', arrs', fsy') \<Longrightarrow>
   n \<notin> {''output.ent'', ''output.ext'', ''output.obj''} \<Longrightarrow>
   \<forall>f \<in> set files. generateIntermediateFileName f \<noteq> Inr n \<Longrightarrow> fsy' n = fsy n"
proof (induction files arbitrary: st arrs fsy outs)
  case Nil
  then show ?case by simp
next
  case (Cons fname files)
  show ?case
  proof (cases "3 < length fname \<and> drop (length fname - 3) fname = ''.as''")
    case False
    with Cons.prems show ?thesis using Cons.IH by auto
  next
    case True
    with Cons.prems(1) obtain am fsy0 t src err st1 fsy1 arrs1 outs' out where
      g: "generateIntermediateFileName fname = Inr am" and
      p: "processSourceFile can_open fsy fname am initializeMacroTable = Inr (fsy0, t)" and
      w: "(if err then Inr (fsy0, arrs, []) else writeFiles can_open ''output.am'' (codeImage st1)
            (dataImage st1) arrs (labelTable st1) (IC st1) (DC st1) fsy0) = Inr (fsy1, arrs1, out)" and
      rest: "assemble_files files st1 arrs1 fsy1 can_open nts = Inr (outs', st', arrs', fsy')"
      by (auto simp: cbind_eq_Inr split: prod.splits option.splits)
    from g Cons.prems(3) have "n \<noteq> am" by auto
    with processSourceFile_frame [OF p] have "fsy0 n = fsy n" by simp
    moreover have "fsy1 n = fsy0 n"
      using w writeFiles_frame [OF _ output_names Cons.prems(2)] by (auto split: if_splits)
    ultimately show ?thesis using Cons.IH [OF rest Cons.prems(2)] Cons.prems(3) by simp
  qed
qed

theorem assemble_files_output_frame_witness:
  "\<exists>outs st' arrs' fsy'. assemble_files [''a.as'']
       (main_state (\<lambda>_. \<lparr>label = \<lparr>name = [], address = 0, isExternal = False, isEntry = False, isData = False\<rparr>,
           isLabel = False, wordType = DATA_WORD_TYPE, word = 0, line_number = 0\<rparr>) (\<lambda>_. \<lparr>label = \<lparr>name = [], address = 0, isExternal = False, isEntry = False, isData = False\<rparr>,
           isLabel = False, wordType = DATA_WORD_TYPE, word = 0, line_number = 0\<rparr>)) \<lparr>codeImageBinary = \<lambda>_. 0, dataImageBinary = \<lambda>_. 0, codeImage64 = \<lambda>_. NUL, dataImage64 = \<lambda>_. NUL\<rparr> [''a.as'' \<mapsto> ''stop'' @ [CHR 0x0A]] (\<lambda>_. True) (\<lambda>_ _. COMMA)
       = Inr (outs, st', arrs', fsy')
     \<and> fsy' ''a.as'' = Some (''stop'' @ [CHR 0x0A])"
proof -
  have "\<exists>outs st' arrs' fsy'. assemble_files [''a.as'']
       (main_state (\<lambda>_. \<lparr>label = \<lparr>name = [], address = 0, isExternal = False, isEntry = False, isData = False\<rparr>,
           isLabel = False, wordType = DATA_WORD_TYPE, word = 0, line_number = 0\<rparr>) (\<lambda>_. \<lparr>label = \<lparr>name = [], address = 0, isExternal = False, isEntry = False, isData = False\<rparr>,
           isLabel = False, wordType = DATA_WORD_TYPE, word = 0, line_number = 0\<rparr>)) \<lparr>codeImageBinary = \<lambda>_. 0, dataImageBinary = \<lambda>_. 0, codeImage64 = \<lambda>_. NUL, dataImage64 = \<lambda>_. NUL\<rparr> [''a.as'' \<mapsto> ''stop'' @ [CHR 0x0A]] (\<lambda>_. True) (\<lambda>_ _. COMMA)
       = Inr (outs, st', arrs', fsy')"
    by (simp add: c_eval fgets_lines.simps noOps_loop.simps get_field_def upto.simps show_nat.simps
      read_cstr.simps cstr_def)
  then obtain outs st' arrs' fsy' where r: "assemble_files [''a.as'']
       (main_state (\<lambda>_. \<lparr>label = \<lparr>name = [], address = 0, isExternal = False, isEntry = False, isData = False\<rparr>,
           isLabel = False, wordType = DATA_WORD_TYPE, word = 0, line_number = 0\<rparr>) (\<lambda>_. \<lparr>label = \<lparr>name = [], address = 0, isExternal = False, isEntry = False, isData = False\<rparr>,
           isLabel = False, wordType = DATA_WORD_TYPE, word = 0, line_number = 0\<rparr>)) \<lparr>codeImageBinary = \<lambda>_. 0, dataImageBinary = \<lambda>_. 0, codeImage64 = \<lambda>_. NUL, dataImage64 = \<lambda>_. NUL\<rparr> [''a.as'' \<mapsto> ''stop'' @ [CHR 0x0A]] (\<lambda>_. True) (\<lambda>_ _. COMMA)
       = Inr (outs, st', arrs', fsy')" by blast
  have "\<forall>f \<in> set [''a.as'']. generateIntermediateFileName f \<noteq> Inr ''a.as''"
    by (simp add: c_eval cstr_def)
  from assemble_files_output_frame [OF r _ this] r show ?thesis by auto
qed

text \<open>
  C31.  Every file of the command line whose name ends in \<open>.as\<close> is eventually
  preprocessed and assembled, in the order given, and no other file is: in every run of
  the file loop that does not abort, the files reported are exactly the \<open>.as\<close>
  arguments.
\<close>

theorem assemble_files_all_files:
  "assemble_files files st arrs fsy can_open nts = Inr (outs, st', arrs', fsy') \<Longrightarrow>
   map fst outs = filter (\<lambda>f. 3 < length f \<and> drop (length f - 3) f = ''.as'') files"
proof (induction files arbitrary: st arrs fsy outs)
  case Nil
  then show ?case by simp
next
  case (Cons fname files)
  show ?case
  proof (cases "3 < length fname \<and> drop (length fname - 3) fname = ''.as''")
    case False
    with Cons show ?thesis by auto
  next
    case True
    with Cons.prems obtain err st1 fsy1 arrs1 outs' where
      rest: "assemble_files files st1 arrs1 fsy1 can_open nts = Inr (outs', st', arrs', fsy')" and
      outs: "outs = (fname, err, st1) # outs'"
      by (auto simp: cbind_eq_Inr split: prod.splits if_splits option.splits)
    from Cons.IH [OF rest] outs True show ?thesis by simp
  qed
qed

theorem assemble_files_all_files_witness:
  "\<exists>outs st' arrs' fsy'. assemble_files [''a.as'', ''b.txt'']
       (main_state (\<lambda>_. \<lparr>label = \<lparr>name = [], address = 0, isExternal = False, isEntry = False, isData = False\<rparr>,
           isLabel = False, wordType = DATA_WORD_TYPE, word = 0, line_number = 0\<rparr>) (\<lambda>_. \<lparr>label = \<lparr>name = [], address = 0, isExternal = False, isEntry = False, isData = False\<rparr>,
           isLabel = False, wordType = DATA_WORD_TYPE, word = 0, line_number = 0\<rparr>))
       \<lparr>codeImageBinary = \<lambda>_. 0, dataImageBinary = \<lambda>_. 0, codeImage64 = \<lambda>_. NUL, dataImage64 = \<lambda>_. NUL\<rparr>
       [''a.as'' \<mapsto> ''stop'' @ [CHR 0x0A]] (\<lambda>_. True) (\<lambda>_ _. COMMA)
       = Inr (outs, st', arrs', fsy') \<and> map fst outs = [''a.as'']"
proof -
  have "\<exists>outs st' arrs' fsy'. assemble_files [''a.as'', ''b.txt'']
       (main_state (\<lambda>_. \<lparr>label = \<lparr>name = [], address = 0, isExternal = False, isEntry = False, isData = False\<rparr>,
           isLabel = False, wordType = DATA_WORD_TYPE, word = 0, line_number = 0\<rparr>) (\<lambda>_. \<lparr>label = \<lparr>name = [], address = 0, isExternal = False, isEntry = False, isData = False\<rparr>,
           isLabel = False, wordType = DATA_WORD_TYPE, word = 0, line_number = 0\<rparr>))
       \<lparr>codeImageBinary = \<lambda>_. 0, dataImageBinary = \<lambda>_. 0, codeImage64 = \<lambda>_. NUL, dataImage64 = \<lambda>_. NUL\<rparr>
       [''a.as'' \<mapsto> ''stop'' @ [CHR 0x0A]] (\<lambda>_. True) (\<lambda>_ _. COMMA)
       = Inr (outs, st', arrs', fsy')"
    by (simp add: c_eval fgets_lines.simps noOps_loop.simps get_field_def upto.simps show_nat.simps
      read_cstr.simps cstr_def)
  then obtain outs st' arrs' fsy' where r: "assemble_files [''a.as'', ''b.txt'']
       (main_state (\<lambda>_. \<lparr>label = \<lparr>name = [], address = 0, isExternal = False, isEntry = False, isData = False\<rparr>,
           isLabel = False, wordType = DATA_WORD_TYPE, word = 0, line_number = 0\<rparr>) (\<lambda>_. \<lparr>label = \<lparr>name = [], address = 0, isExternal = False, isEntry = False, isData = False\<rparr>,
           isLabel = False, wordType = DATA_WORD_TYPE, word = 0, line_number = 0\<rparr>))
       \<lparr>codeImageBinary = \<lambda>_. 0, dataImageBinary = \<lambda>_. 0, codeImage64 = \<lambda>_. NUL, dataImage64 = \<lambda>_. NUL\<rparr>
       [''a.as'' \<mapsto> ''stop'' @ [CHR 0x0A]] (\<lambda>_. True) (\<lambda>_ _. COMMA)
       = Inr (outs, st', arrs', fsy')" by blast
  from assemble_files_all_files [OF r] r show ?thesis by auto
qed

end
