(* ===== verification/Spec2Isabelle.thy ===== *)
theory Spec2Isabelle
  imports Driver
begin

text \<open>
  A shallow-embedding model of the two-pass assembler of the repository
  (\<^verbatim>\<open>src/\<close>), written in C.  For each \<open>.as\<close> file of the command line,
  \<^verbatim>\<open>main\<close> (\<^verbatim>\<open>main.c\<close>) first runs the macro preprocessor
  (\<^verbatim>\<open>preprocessor.c\<close>), which writes the \<open>.am\<close> file with every macro call
  replaced by its body, then reads the \<open>.am\<close> file line by line; each line goes to \<^verbatim>\<open>parseLine\<close> (\<^verbatim>\<open>parser.c\<close>), which reads
  tokens with \<^verbatim>\<open>getNextToken\<close> and hands the rest of the line to a label handler
  (\<^verbatim>\<open>labels.c\<close>), a directive handler (\<^verbatim>\<open>directives.c\<close>) or one of the three
  instruction handlers (\<^verbatim>\<open>instructions.c\<close>).  The handlers fill two arrays of
  \<^verbatim>\<open>MAX_MEMORY_SPACE\<close> machine words, the code and data images, advance the
  counters \<open>IC\<close> and \<open>DC\<close>, and grow the label table; \<^verbatim>\<open>writeFiles.c\<close> then
  serializes the images.

  \<^bold>\<open>Conventions.\<close>  Every C function that can fail is a HOL function into
  \<open>'a cres = abort + 'a\<close> (theory \<open>Prelude\<close>): \<open>Inl Undefined_behaviour\<close> for an
  access outside an array or a dereference of an invalid pointer, \<open>Inl (Exit n)\<close> for
  \<^verbatim>\<open>exit(n)\<close>, \<open>Inr\<close> for a normal return; \<open>cbind\<close> sequences them.  A C string is
  a \<open>char list\<close> read with \<open>peek\<close> (NUL at its end), a cursor \<^verbatim>\<open>char **line\<close> is the
  remaining suffix.  Memory the program never initializes (the images, the word
  contents) is left as an arbitrary argument: theorems hold for every initial content.
  The C library functions the sources call (\<^verbatim>\<open>atoi\<close>, \<^verbatim>\<open>isspace\<close>,
  \<^verbatim>\<open>isdigit\<close>, \<^verbatim>\<open>isalpha\<close>) are modelled after glibc in the C locale.

  \<^bold>\<open>Theories.\<close>
  \<^item> \<open>Prelude\<close>: the outcome type and \<open>cbind\<close>; C strings; \<open>atoi\<close>; the bytes of an
    \<open>int\<close> stored in a union (\<open>int_bytes\<close>, \<open>store_int\<close>, little-endian, 4 bytes);
    bit-fields inside a 32-bit storage unit (\<open>bf_get\<close>, \<open>bf_set\<close>, allocated from
    bit 0 as the System V ABI does); bounded array writes (\<open>arr_upd\<close>).
  \<^item> \<open>Types\<close> (\<^verbatim>\<open>utils.h\<close>, \<^verbatim>\<open>main.c\<close>): limits, \<open>TokenType\<close>, \<open>Token\<close>,
    \<open>label\<close>, \<open>WordType\<close>, the bit-field layouts of the \<^verbatim>\<open>machine_word\<close> union
    (\<open>field_layout\<close>, \<open>get_field\<close>, \<open>set_field\<close>), the writes the encoders perform
    (\<open>mw_write\<close>, \<open>mw_apply\<close>, \<open>stores\<close>, bounds-checked against
    \<open>MAX_MEMORY_SPACE\<close>), and the assembler state \<open>asm_state\<close> that \<^verbatim>\<open>main\<close> owns.
  \<^item> \<open>Names\<close> (\<^verbatim>\<open>instructions.c\<close>, \<^verbatim>\<open>directives.c\<close>, \<^verbatim>\<open>labels.c\<close>): the
    reserved-name tables, \<open>legalLabelName\<close>, \<open>isValidLabel\<close>.
  \<^item> \<open>Tokenizer\<close> (\<^verbatim>\<open>parser.c\<close>): \<open>skipSpaces\<close>, \<open>isNumber\<close>, \<open>word_token\<close> and
    \<open>getNextToken\<close>, with the unbounded copy into the 32-byte token buffer (undefined
    behaviour past 31 characters), \<^verbatim>\<open>exit(1)\<close> on an invalid token, and the
    \<open>int\<close> of a number stored over the token string.  Lemmas: the shape of every token
    and the cursor it leaves; C1, the cursor is a suffix of the input and shorter
    when the input is not at its end, on which every loop's termination proof rests; C2, what an encoder reads back from a number token.
  \<^item> \<open>Instructions\<close> (\<^verbatim>\<open>instructions.c\<close>): \<open>isRegister\<close>, \<open>findOpcode\<close>, one
    step function per operand loop body (\<open>twoOps_step\<close>, \<open>oneOp_step\<close>), the loop
    guards, the shared loop \<open>operand_loop\<close> (a \<open>function\<close> terminating by the length of
    the line), and the handlers \<open>parseTwoOperands\<close>, \<open>parseOneOperand\<close>,
    \<open>parseNoOperands\<close> as functions of the rest of the line, the mnemonic token and the
    state.  Every C assignment to \<^verbatim>\<open>codeImage[k]\<close> is a write of \<open>stores\<close> at the
    index \<open>k\<close> the C expression computes.  Lemmas: a generic invariant rule for the loop
    (\<open>operand_loop_inv\<close>) instantiated for the counters and for the set of indices
    written; C3 to C7, what each handler guarantees when it accepts a line, which words
    it may write, and when it is undefined behaviour; C8 and C9, two encodings that
    differ from the specification.

  \<^item> \<open>Labels\<close> (\<^verbatim>\<open>labels.c\<close>): the label table as the list reached from
    \<^verbatim>\<open>labelTable->head\<close>, \<open>findLabel\<close> (a fold over the whole list),
    \<open>insertLabel\<close>, \<open>createLabel\<close> and \<open>parseLabel\<close>.  \<^verbatim>\<open>createLabel\<close>
    computes \<^verbatim>\<open>name + ':'\<close>, pointer arithmetic 58 bytes into a 32-byte string
    (\<open>ptr_add\<close>), so every call is undefined behaviour.  \<^verbatim>\<open>parseLabel\<close> reads a
    local it never assigns; its type is the argument \<open>nextTok\<close> of every handler that
    calls it, and the theorems hold for every value of it.  Lemmas: C10 and C11, lookup
    after insertion; C12, the undefined pointer arithmetic; C13, \<^verbatim>\<open>parseLabel\<close>
    never changes the state.
  \<^item> \<open>Directives\<close> (\<^verbatim>\<open>directives.c\<close>): \<open>parseDirectiveData\<close>,
    \<open>parseDirectiveString\<close>, \<open>parseDirectiveExtEnt\<close>, \<open>parseDirective\<close>, their
    loops as \<open>function\<close>s measured by the line or the token counter.  Lemmas: C14,
    \<^verbatim>\<open>.data\<close> stores the type code 5 of \<open>NUMBER\<close>; C15, its frame; C16,
    \<^verbatim>\<open>.string\<close> stores the characters of the END token's text; C17,
    \<^verbatim>\<open>.entry\<close>/\<^verbatim>\<open>.extern\<close> accept only invalid labels; C18, in every state
    \<^verbatim>\<open>.entry\<close> is undefined behaviour on a valid one.
  \<^item> \<open>Preprocessor\<close> (\<^verbatim>\<open>preprocessor.c\<close>, \<^verbatim>\<open>preprocessor.h\<close>): the macro
    table as the list of its first \<^verbatim>\<open>count\<close> entries with \<^verbatim>\<open>capacity\<close> and the
    size of the heap block (\<open>alloc\<close>); \<open>initializeMacroTable\<close>,
    \<open>trimWhitespace\<close> (with the C index arithmetic), \<open>findMacro\<close>,
    \<open>isValidMacroName\<close>, \<open>addMacro\<close>, \<open>freeMacroTable\<close>; and
    \<open>processSourceFile\<close>, whose loop body \<open>pp_step\<close> is composed of the four
    branches of the C loop (\<open>mcro_start\<close>, \<open>mcro_end\<close>, the body line,
    \<open>macro_call\<close>), threading the locals that survive a line (\<open>pp_state\<close>).  The
    abstraction \<open>macro_map\<close> reads the table as a map from names to bodies (as
    \<open>map_of\<close> does for association lists); \<open>table_ok\<close> is the invariant of the
    allocation and \<open>macro_names_ok\<close> (with \<open>pp_names_ok\<close> for the loop state) the
    well-formedness of the names.  \<open>pp_step_cases\<close> is the case rule of the loop
    body that the preservation proofs share.
    Lemmas: C33, \<^verbatim>\<open>trimWhitespace\<close> equals the two-sided \<open>dropWhile\<close>; C34 and C35,
    \<^verbatim>\<open>findMacro\<close> refines map lookup and \<^verbatim>\<open>addMacro\<close> map update; C36, the
    eleventh macro overflows the block; C37, the invariant holds through a whole file;
    C38, the names stay distinct blank-free words through a whole file; C39, an
    empty definition is undefined behaviour (\<open>pp_step_comment_example\<close> shows a
    trailing comment taking the newline with it); C40, a source without macros passes unchanged.
  \<^item> \<open>Driver\<close> (\<^verbatim>\<open>parser.c\<close> \<^verbatim>\<open>parseLine\<close>, \<^verbatim>\<open>main.c\<close>): the
    dispatch of a line, the \<^verbatim>\<open>fgets\<close> splitting of a file into chunks of at most
    \<^verbatim>\<open>MAX_LINE_LENGTH\<close> characters (\<open>fgets_lines\<close>, in \<open>Types\<close>, also used by
    the preprocessor), the line loop (\<open>process_lines\<close>),
    \<open>generateIntermediateFileName\<close>, and the file loop (\<open>assemble_files\<close>) which
    for each \<open>.as\<close> file runs \<open>processSourceFile\<close>, reads the \<open>.am\<close> file back
    (\<open>Exit 1\<close> when it does not exist), parses its lines and calls
    \<open>writeFiles\<close>, with the state \<^verbatim>\<open>main\<close> keeps across files; \<open>main\<close> adds the
    argument check.  Lemmas: C19, the chunks concatenate back to the file; C20, a line
    starting with a label declaration is rejected; C21, the label table stays empty
    and the counters never decrease in a defined run; C22, nothing is reset between
    files: each file is parsed from the state the previous one left; C31, every
    \<open>.as\<close> argument and only those is processed, in order; C32, the only files
    changed are those and the \<open>.am\<close> files.
  \<^item> \<open>Serializer\<close> (\<^verbatim>\<open>writeFiles.c\<close>): \<open>convertToBinary\<close> (with
    \<open>pack_word\<close>, the \<^verbatim>\<open>switch\<close> on the word type), \<open>binaryToBase64\<close>,
    \<open>printBinaryRepresentation\<close>, the four loops of \<open>convertArrays\<close>
    (\<open>bin_loop\<close>, \<open>b64_loop\<close>, with \<^verbatim>\<open>strcpy\<close> as \<open>strcpy_at\<close>), the label
    files \<open>writeLabelFiles\<close>, \<open>generateOutputFileNames\<close> and \<open>writeFiles\<close>.
    Streams are the \<open>char list\<close>s written to them, \<^verbatim>\<open>%d\<close> is \<open>show_int\<close>,
    the file system is a map from names to contents, and which names \<^verbatim>\<open>fopen\<close> can
    open is a parameter.  Reference functions state what is computed: \<open>word_value\<close>,
    the packing as arithmetic; \<open>b64_decode\<close>; \<open>bin_val\<close>.  Lemmas: C23, the bit
    operations refine \<open>word_value\<close> (a refinement of words to numbers); C24, the
    base64 text decodes back to the value (and the binary text likewise); C25, \<^verbatim>\<open>convertArrays\<close> is
    undefined behaviour beyond 511 words; C26, what it stores; C27, the lines of the
    object file; C28, the label files; C29, label words are written as 0; C30, the
    output names.

  \<^bold>\<open>Bounds.\<close>  No fuel is used: every loop of the modelled code consumes the line,
  counts up to a constant or walks a list, so each is a \<open>fun\<close> or a \<open>function\<close>
  with a measure (the length of the cursor, \<open>4 - counter\<close>, \<open>n - i\<close>).  The C
  \<^verbatim>\<open>for\<close> loops of \<^verbatim>\<open>convertArrays\<close> and \<^verbatim>\<open>writeFiles\<close> run over the
  list \<open>[0..IC - 1]\<close>.  Arrays have \<^verbatim>\<open>MAX_MEMORY_SPACE\<close> = 1024 elements, as in
  \<^verbatim>\<open>main\<close>; every index is checked against that bound.

  \<^bold>\<open>Assumed.\<close>  \<^verbatim>\<open>malloc\<close> and \<^verbatim>\<open>realloc\<close> (in
  \<^verbatim>\<open>createLabelTable\<close>, \<^verbatim>\<open>binaryToBase64\<close> and the preprocessor) succeed.  Memory the program reads before writing it (the
  images, the arrays of \<^verbatim>\<open>main\<close>) is an arbitrary argument.

  \<^bold>\<open>Not modelled.\<close>  The headers \<^verbatim>\<open>labels.h\<close>, \<^verbatim>\<open>parser.h\<close>,
  \<^verbatim>\<open>instructions.h\<close>, \<^verbatim>\<open>directives.h\<close> and \<^verbatim>\<open>writeFiles.h\<close> hold
  only include guards and prototypes of the functions modelled from the \<open>.c\<close> files,
  and the static prototypes at the top of the \<open>.c\<close> files likewise; there is nothing
  in them to translate.  The text of diagnostics
  printed by \<^verbatim>\<open>printError\<close> and \<^verbatim>\<open>printWarning\<close> and the \<^verbatim>\<open>printf\<close> calls
  of \<^verbatim>\<open>main\<close> (only the return values and state changes are modelled; the
  serializer's standard output is modelled as text); the \<^verbatim>\<open>perror\<close> messages of
  \<^verbatim>\<open>writeFiles\<close>; the label listing \<^verbatim>\<open>main\<close> prints.  The table
  \<^verbatim>\<open>freeMacroTable\<close> frees in \<^verbatim>\<open>main\<close> is never used again, so its result is
  dropped there.
\<close>

end
